theory Spec2Isabelle
  imports Main "HOL-Library.AList" "HOL-Library.Sublist" "HOL-Library.Multiset"
begin

section \<open>Python values\<close>

text \<open>
  The program (\<^verbatim>\<open>autoresume.py\<close>) works on the objects that \<^verbatim>\<open>json.loads\<close> returns:
  \<^verbatim>\<open>None\<close>, booleans, unbounded integers, floats, strings, lists and dictionaries with
  string keys. A \<^verbatim>\<open>str\<close> is a \<open>string\<close> holding the UTF-8 bytes of the text. A float is
  the exact value \<open>m * 2 ^ e\<close> of a binary64 number, an infinity or a NaN (the sign of a
  zero is not kept: no operation of the program observes it). A dictionary is an
  association list in insertion order with distinct keys.
\<close>

datatype pyfloat = Finite int int | PosInf | NegInf | NaN

datatype pyobj =
    PyNone
  | PyBool bool
  | PyInt int
  | PyFloat pyfloat
  | PyStr string
  | PyList "pyobj list"
  | PyDict "(string \<times> pyobj) list"

text \<open>The exceptions that the modelled statements can raise; \<open>Inl\<close> of a result is a raise.\<close>

datatype exn = JSONDecodeError | ValueError | TypeError | AttributeError | OverflowError

subsection \<open>Truth value, \<^verbatim>\<open>or\<close>, \<^verbatim>\<open>.get\<close>, \<^verbatim>\<open>.setdefault\<close>, iteration\<close>

fun truthy :: "pyobj \<Rightarrow> bool" where
  "truthy PyNone = False"
| "truthy (PyBool b) = b"
| "truthy (PyInt n) = (n \<noteq> 0)"
| "truthy (PyFloat (Finite m e)) = (m \<noteq> 0)"
| "truthy (PyFloat f) = True"
| "truthy (PyStr s) = (s \<noteq> [])"
| "truthy (PyList xs) = (xs \<noteq> [])"
| "truthy (PyDict kvs) = (kvs \<noteq> [])"

definition py_or :: "pyobj \<Rightarrow> pyobj \<Rightarrow> pyobj" where
  \<comment> \<open>\<^verbatim>\<open>x or y\<close>\<close>
  "py_or x y = (if truthy x then x else y)"

definition py_get :: "pyobj \<Rightarrow> pyobj \<Rightarrow> pyobj \<Rightarrow> exn + pyobj" where
  \<comment> \<open>\<^verbatim>\<open>obj.get(key, default)\<close>: only a dict has the method; a list or dict key is
      unhashable; a key that is no string equals no key of a decoded dictionary.\<close>
  "py_get obj key dflt =
     (case obj of
        PyDict kvs \<Rightarrow>
          (case key of
             PyStr k \<Rightarrow> (case map_of kvs k of Some v \<Rightarrow> Inr v | None \<Rightarrow> Inr dflt)
           | PyList _ \<Rightarrow> Inl TypeError
           | PyDict _ \<Rightarrow> Inl TypeError
           | _ \<Rightarrow> Inr dflt)
      | _ \<Rightarrow> Inl AttributeError)"

definition setdefault :: "string \<Rightarrow> pyobj \<Rightarrow> (string \<times> pyobj) list \<Rightarrow> (string \<times> pyobj) list" where
  \<comment> \<open>\<^verbatim>\<open>d.setdefault(k, v)\<close>, as the dictionary it leaves behind\<close>
  "setdefault k v kvs = (if k \<in> fst ` set kvs then kvs else kvs @ [(k, v)])"

definition continuation :: "char \<Rightarrow> bool" where
  \<comment> \<open>a byte \<open>10xxxxxx\<close>, which continues the character before it\<close>
  "continuation b = (128 \<le> (of_char b :: nat) \<and> (of_char b :: nat) < 192)"

fun utf8_chars :: "string \<Rightarrow> string list" where
  \<comment> \<open>the characters of a text, each with its continuation bytes\<close>
  "utf8_chars [] = []"
| "utf8_chars (c # cs) =
     (case utf8_chars cs of
        [] \<Rightarrow> [[c]]
      | g # gs \<Rightarrow> if continuation (hd g) then (c # g) # gs else [c] # g # gs)"

definition py_iter :: "pyobj \<Rightarrow> exn + pyobj list" where
  \<comment> \<open>the items that \<^verbatim>\<open>for x in obj\<close> runs through\<close>
  "py_iter obj =
     (case obj of
        PyList xs \<Rightarrow> Inr xs
      | PyStr s \<Rightarrow> Inr (map PyStr (utf8_chars s))
      | PyDict kvs \<Rightarrow> Inr (map (PyStr \<circ> fst) kvs)
      | _ \<Rightarrow> Inl TypeError)"

subsection \<open>\<^verbatim>\<open>int(x)\<close>\<close>

text \<open>
  Converting a string to an integer is limited to 4300 digits
  (\<^verbatim>\<open>sys.int_info.default_max_str_digits\<close>, CPython 3.11 and the security releases of
  3.7 to 3.10); a longer numeral raises \<^verbatim>\<open>ValueError\<close>.
\<close>

definition int_max_str_digits :: nat where
  "int_max_str_digits = 4300"

definition is_digit :: "char \<Rightarrow> bool" where
  "is_digit c = (48 \<le> (of_char c :: nat) \<and> (of_char c :: nat) \<le> 57)"

definition digit_val :: "char \<Rightarrow> int" where
  "digit_val c = of_char c - 48"

definition int_of_digits :: "string \<Rightarrow> int" where
  "int_of_digits ds = foldl (\<lambda>n c. 10 * n + digit_val c) 0 ds"

definition c_isspace :: "char \<Rightarrow> bool" where
  \<comment> \<open>space, tab, line feed, vertical tab, form feed, carriage return\<close>
  "c_isspace c = ((of_char c :: nat) = 32 \<or> (9 \<le> (of_char c :: nat) \<and> (of_char c :: nat) \<le> 13))"

fun digit_groups :: "string \<Rightarrow> bool" where
  \<comment> \<open>digits, with single underscores between digits only\<close>
  "digit_groups [] = False"
| "digit_groups [c] = is_digit c"
| "digit_groups (c # d # cs) =
     (is_digit c \<and> (if d = CHR ''_'' then digit_groups cs else digit_groups (d # cs)))"

definition int_of_str :: "string \<Rightarrow> exn + int" where
  \<comment> \<open>\<^verbatim>\<open>int(s)\<close> for a text of ASCII characters: blanks around an optional sign and a
      decimal numeral. For a text with other characters Python also takes Unicode blanks
      and digits; the model raises \<^verbatim>\<open>ValueError\<close> there.\<close>
  "int_of_str s =
     (let t = rev (dropWhile c_isspace (rev (dropWhile c_isspace s)));
          neg = (case t of c # _ \<Rightarrow> c = CHR ''-'' | [] \<Rightarrow> False);
          body = (case t of c # cs \<Rightarrow> if c = CHR ''-'' \<or> c = CHR ''+'' then cs else t | [] \<Rightarrow> []);
          ds = filter (\<lambda>c. c \<noteq> CHR ''_'') body
      in if digit_groups body \<and> length ds \<le> int_max_str_digits
         then Inr (if neg then - int_of_digits ds else int_of_digits ds)
         else Inl ValueError)"

definition py_int :: "pyobj \<Rightarrow> exn + int" where
  "py_int x =
     (case x of
        PyInt n \<Rightarrow> Inr n
      | PyBool b \<Rightarrow> Inr (if b then 1 else 0)
      | PyFloat f \<Rightarrow>
          (case f of
             Finite m e \<Rightarrow>
               Inr (if 0 \<le> e then m * 2 ^ nat e
                    else if 0 \<le> m then m div 2 ^ nat (- e)
                    else - ((- m) div 2 ^ nat (- e)))
           | NaN \<Rightarrow> Inl ValueError
           | _ \<Rightarrow> Inl OverflowError)
      | PyStr s \<Rightarrow> int_of_str s
      | _ \<Rightarrow> Inl TypeError)"

section \<open>The alignment scorer\<close>

text \<open>
  \<^verbatim>\<open>score_and_adjust_bullets\<close>, lines 205 to 219: the loop over the tagged bullets and
  the sort. The dictionary literal that the loop appends has the three keys
  \<^verbatim>\<open>bullet_text\<close>, \<^verbatim>\<open>tags\<close> and \<^verbatim>\<open>alignment_score\<close>; it is a record here.
\<close>

record scored_bullet =
  bullet_text :: pyobj
  tags :: pyobj
  alignment_score :: int

fun sum_weights :: "pyobj \<Rightarrow> pyobj list \<Rightarrow> exn + int" where
  \<comment> \<open>\<^verbatim>\<open>sum(int(weights.get(tag, 0)) for tag in tags)\<close>, tag by tag\<close>
  "sum_weights weights [] = Inr 0"
| "sum_weights weights (tag # rest) =
     (case py_get weights tag (PyInt 0) of
        Inl e \<Rightarrow> Inl e
      | Inr w \<Rightarrow>
          (case py_int w of
             Inl e \<Rightarrow> Inl e
           | Inr n \<Rightarrow>
               (case sum_weights weights rest of
                  Inl e \<Rightarrow> Inl e
                | Inr s \<Rightarrow> Inr (n + s))))"

definition bullet_tags :: "pyobj \<Rightarrow> exn + pyobj" where
  \<comment> \<open>\<^verbatim>\<open>tags = bullet.get("tags", []) or []\<close>\<close>
  "bullet_tags bullet =
     (case py_get bullet (PyStr ''tags'') (PyList []) of
        Inl e \<Rightarrow> Inl e
      | Inr t \<Rightarrow> Inr (py_or t (PyList [])))"

definition score_bullet :: "pyobj \<Rightarrow> pyobj \<Rightarrow> exn + scored_bullet" where
  \<comment> \<open>the body of \<^verbatim>\<open>for bullet in tagged_bullets\<close>\<close>
  "score_bullet weights bullet =
     (case bullet_tags bullet of
        Inl e \<Rightarrow> Inl e
      | Inr ts \<Rightarrow>
          (case py_iter ts of
             Inl e \<Rightarrow> Inl e
           | Inr items \<Rightarrow>
               (case sum_weights weights items of
                  Inl e \<Rightarrow> Inl e
                | Inr score \<Rightarrow>
                    (case py_get bullet (PyStr ''bullet_text'') (PyStr []) of
                       Inl e \<Rightarrow> Inl e
                     | Inr txt \<Rightarrow>
                         Inr \<lparr>bullet_text = txt, tags = ts, alignment_score = score\<rparr>))))"

fun score_all :: "pyobj \<Rightarrow> pyobj list \<Rightarrow> exn + scored_bullet list" where
  \<comment> \<open>the loop: the first bullet that raises ends it\<close>
  "score_all weights [] = Inr []"
| "score_all weights (bullet # rest) =
     (case score_bullet weights bullet of
        Inl e \<Rightarrow> Inl e
      | Inr u \<Rightarrow>
          (case score_all weights rest of
             Inl e \<Rightarrow> Inl e
           | Inr us \<Rightarrow> Inr (u # us)))"

definition sort_reverse :: "('a \<Rightarrow> int) \<Rightarrow> 'a list \<Rightarrow> 'a list" where
  \<comment> \<open>\<^verbatim>\<open>xs.sort(key=f, reverse=True)\<close>: descending and stable\<close>
  "sort_reverse f xs = sort_key (\<lambda>x. - f x) xs"

definition signal_weights :: "pyobj \<Rightarrow> exn + pyobj" where
  \<comment> \<open>\<^verbatim>\<open>weights = jd_signals.get("signal_weights", {}) or {}\<close>\<close>
  "signal_weights jd_signals =
     (case py_get jd_signals (PyStr ''signal_weights'') (PyDict []) of
        Inl e \<Rightarrow> Inl e
      | Inr w \<Rightarrow> Inr (py_or w (PyDict [])))"

definition scored_bullets :: "pyobj \<Rightarrow> pyobj list \<Rightarrow> exn + scored_bullet list" where
  \<comment> \<open>the list \<^verbatim>\<open>scored_bullets\<close> after line 219\<close>
  "scored_bullets jd_signals tagged_bullets =
     (case signal_weights jd_signals of
        Inl e \<Rightarrow> Inl e
      | Inr weights \<Rightarrow>
          (case score_all weights tagged_bullets of
             Inl e \<Rightarrow> Inl e
           | Inr scored \<Rightarrow> Inr (sort_reverse alignment_score scored)))"

text \<open>The clusters that \<^verbatim>\<open>tag_resume_bullets\<close> lists in its prompt (lines 141 to 154).\<close>

definition clusters :: "string list" where
  "clusters =
     [''backend'', ''frontend'', ''fullstack'', ''data_ml'', ''cloud_devops'',
      ''testing_quality'', ''performance_scalability'', ''security_reliability'',
      ''product_user_focus'', ''teamwork_communication'', ''learning_growth'',
      ''domain_industry'']"

section \<open>Text operations\<close>

text \<open>
  A backslash cannot stand in a string literal; it is \<open>CHR 0x5C\<close>, and the backtick of a
  code fence prints as \<open>CHR 0x60\<close>.
\<close>

fun find_sub :: "string \<Rightarrow> string \<Rightarrow> nat option" where
  \<comment> \<open>the index of the first occurrence of a pattern in a text\<close>
  "find_sub pat [] = (if pat = [] then Some 0 else None)"
| "find_sub pat (c # cs) =
     (if prefix pat (c # cs) then Some 0 else map_option Suc (find_sub pat cs))"

fun replace_all :: "string \<Rightarrow> string \<Rightarrow> string \<Rightarrow> string" where
  \<comment> \<open>from left to right, every occurrence that does not overlap the one before it\<close>
  "replace_all old new [] = []"
| "replace_all old new (c # cs) =
     (if prefix old (c # cs) then new @ replace_all old new (drop (length old - 1) cs)
      else c # replace_all old new cs)"

definition py_replace :: "string \<Rightarrow> string \<Rightarrow> string \<Rightarrow> string" where
  \<comment> \<open>\<^verbatim>\<open>s.replace(old, new)\<close>; an empty \<^verbatim>\<open>old\<close> matches before every character and at the end\<close>
  "py_replace old new s =
     (if old = [] then new @ concat (map (\<lambda>g. g @ new) (utf8_chars s))
      else replace_all old new s)"

definition unicode_spaces :: "string list" where
  \<comment> \<open>the characters \<^verbatim>\<open>c\<close> with \<^verbatim>\<open>c.isspace()\<close>, in UTF-8: U+0009 to U+000D, U+001C to U+0020,
      U+0085, U+00A0, U+1680, U+2000 to U+200A, U+2028, U+2029, U+202F, U+205F, U+3000\<close>
  "unicode_spaces =
     [[CHR 0x09], [CHR 0x0A], [CHR 0x0B], [CHR 0x0C], [CHR 0x0D],
      [CHR 0x1C], [CHR 0x1D], [CHR 0x1E], [CHR 0x1F], [CHR 0x20],
      [CHR 0xC2, CHR 0x85], [CHR 0xC2, CHR 0xA0], [CHR 0xE1, CHR 0x9A, CHR 0x80],
      [CHR 0xE2, CHR 0x80, CHR 0x80], [CHR 0xE2, CHR 0x80, CHR 0x81],
      [CHR 0xE2, CHR 0x80, CHR 0x82], [CHR 0xE2, CHR 0x80, CHR 0x83],
      [CHR 0xE2, CHR 0x80, CHR 0x84], [CHR 0xE2, CHR 0x80, CHR 0x85],
      [CHR 0xE2, CHR 0x80, CHR 0x86], [CHR 0xE2, CHR 0x80, CHR 0x87],
      [CHR 0xE2, CHR 0x80, CHR 0x88], [CHR 0xE2, CHR 0x80, CHR 0x89],
      [CHR 0xE2, CHR 0x80, CHR 0x8A], [CHR 0xE2, CHR 0x80, CHR 0xA8],
      [CHR 0xE2, CHR 0x80, CHR 0xA9], [CHR 0xE2, CHR 0x80, CHR 0xAF],
      [CHR 0xE2, CHR 0x81, CHR 0x9F], [CHR 0xE3, CHR 0x80, CHR 0x80]]"

fun lstrip_with :: "string list \<Rightarrow> string \<Rightarrow> string" where
  \<comment> \<open>drops the leading characters that are among \<open>ws\<close>\<close>
  "lstrip_with ws [] = []"
| "lstrip_with ws (c # cs) =
     (case find (\<lambda>w. w \<noteq> [] \<and> prefix w (c # cs)) ws of
        None \<Rightarrow> c # cs
      | Some w \<Rightarrow> lstrip_with ws (drop (length w - 1) cs))"

definition py_strip :: "string \<Rightarrow> string" where
  \<comment> \<open>\<^verbatim>\<open>s.strip()\<close>\<close>
  "py_strip s =
     lstrip_with unicode_spaces (rev (lstrip_with (map rev unicode_spaces) (rev s)))"

section \<open>Extraction of the rewritten document\<close>

text \<open>
  \<^verbatim>\<open>score_and_adjust_bullets\<close>, lines 304 to 311, from the text of the reply on
  (\<^verbatim>\<open>response.text or ""\<close> is that text). The pattern
  \<^verbatim>\<open>\documentclass.*?\end\{document\}\<close> with \<^verbatim>\<open>re.DOTALL\<close> matches from the first begin marker
  that an end marker follows, which is the first begin marker when there is a match at
  all, to the first end marker after it: \<^verbatim>\<open>.*?\<close> takes as few characters as it can.
\<close>

definition begin_marker :: string where
  "begin_marker = CHR 0x5C # ''documentclass''"

definition end_marker :: string where
  "end_marker = CHR 0x5C # ''end{document}''"

definition document_span :: "string \<Rightarrow> string option" where
  \<comment> \<open>\<^verbatim>\<open>match.group(0)\<close> of the search, \<open>None\<close> when there is no match\<close>
  "document_span s =
     (case find_sub begin_marker s of
        None \<Rightarrow> None
      | Some i \<Rightarrow>
          (case find_sub end_marker (drop (i + length begin_marker) s) of
             None \<Rightarrow> None
           | Some k \<Rightarrow> Some (take (length begin_marker + k + length end_marker) (drop i s))))"

definition remove_fences :: "string \<Rightarrow> string" where
  \<comment> \<open>\<^verbatim>\<open>.replace("```latex", "").replace("```", "")\<close>\<close>
  "remove_fences s = py_replace ''```'' [] (py_replace ''```latex'' [] s)"

definition clean_text :: "string \<Rightarrow> string" where
  \<comment> \<open>the value that \<^verbatim>\<open>score_and_adjust_bullets\<close> returns, from the text of the reply\<close>
  "clean_text response_text =
     py_strip (remove_fences
       (case document_span response_text of Some m \<Rightarrow> m | None \<Rightarrow> response_text))"

section \<open>The JSON decoder\<close>

text \<open>
  \<^verbatim>\<open>json.loads\<close> belongs to Python's standard library, not to the program. The functions
  of the program that call it take the decoder as their first argument \<open>loads\<close>: a
  function from the text to the decoded object or to the exception raised. The
  properties of the parser hold for every such function. \<open>json_loads\<close> below is the
  decoder of CPython 3.11 for a text, written out to run the program on replies: the
  JSON grammar with the blanks space, tab, line feed and carriage return, the constants
  \<^verbatim>\<open>NaN\<close>, \<^verbatim>\<open>Infinity\<close> and \<^verbatim>\<open>-Infinity\<close>, a float for a number with a fraction or an
  exponent (rounded to the nearest binary64, ties to even), the last value for a key that
  is repeated, \<^verbatim>\<open>JSONDecodeError\<close> for a text outside the grammar, and \<^verbatim>\<open>ValueError\<close> for an
  integer of more than 4300 digits where the grammar asks for a value. A lone surrogate
  escape is kept as the three bytes of its code. The depth of nesting is not limited
  here; CPython raises \<^verbatim>\<open>RecursionError\<close> beyond its recursion limit.
\<close>

subsection \<open>Floats\<close>

function bit_length :: "int \<Rightarrow> nat" where
  \<comment> \<open>the number of binary digits of a positive integer\<close>
  "bit_length n = (if n \<le> 0 then 0 else Suc (bit_length (n div 2)))"
  by pat_completeness auto
termination
  by (relation "measure nat") auto

declare bit_length.simps [simp del]

definition round_half_even :: "int \<Rightarrow> int \<Rightarrow> int" where
  \<comment> \<open>\<open>n / d\<close> to the nearest integer, a tie to the even one\<close>
  "round_half_even n d =
     (let q = n div d; r = n mod d
      in if 2 * r < d then q else if d < 2 * r then q + 1 else if even q then q else q + 1)"

definition binary64 :: "bool \<Rightarrow> int \<Rightarrow> int \<Rightarrow> pyfloat" where
  \<comment> \<open>the binary64 number nearest to \<open>n / d\<close>: 53 binary digits, exponents from -1074 to 971\<close>
  "binary64 neg n d =
     (if n = 0 then Finite 0 0
      else
        let k0 = int (bit_length n) - int (bit_length d);
            k = (if (if 0 \<le> k0 then d * 2 ^ nat k0 \<le> n else d \<le> n * 2 ^ nat (- k0))
                 then k0 else k0 - 1);
            e = max (k - 52) (- 1074);
            m = (if 0 \<le> e then round_half_even n (d * 2 ^ nat e)
                 else round_half_even (n * 2 ^ nat (- e)) d)
        in if 971 < e \<or> (e = 971 \<and> 2 ^ 53 \<le> m) then (if neg then NegInf else PosInf)
           else Finite (if neg then - m else m) e)"

definition float_of_decimal :: "bool \<Rightarrow> int \<Rightarrow> int \<Rightarrow> pyfloat" where
  \<comment> \<open>\<^verbatim>\<open>float\<close> of the decimal \<open>mant * 10 ^ e10\<close>\<close>
  "float_of_decimal neg mant e10 =
     (if 0 \<le> e10 then binary64 neg (mant * 10 ^ nat e10) 1
      else binary64 neg mant (10 ^ nat (- e10)))"


subsection \<open>Strings\<close>

definition hex_val :: "char \<Rightarrow> nat option" where
  "hex_val c =
     (let n = (of_char c :: nat)
      in if 48 \<le> n \<and> n \<le> 57 then Some (n - 48)
         else if 97 \<le> n \<and> n \<le> 102 then Some (n - 87)
         else if 65 \<le> n \<and> n \<le> 70 then Some (n - 55)
         else None)"

fun hex4 :: "string \<Rightarrow> nat option" where
  "hex4 (a # b # c # d # _) =
     (case (hex_val a, hex_val b, hex_val c, hex_val d) of
        (Some x, Some y, Some z, Some w) \<Rightarrow> Some (4096 * x + 256 * y + 16 * z + w)
      | _ \<Rightarrow> None)"
| "hex4 _ = None"

definition utf8_encode :: "nat \<Rightarrow> string" where
  "utf8_encode cp =
     (if cp < 128 then [char_of cp]
      else if cp < 2048 then [char_of (192 + cp div 64), char_of (128 + cp mod 64)]
      else if cp < 65536 then
        [char_of (224 + cp div 4096), char_of (128 + cp div 64 mod 64), char_of (128 + cp mod 64)]
      else
        [char_of (240 + cp div 262144), char_of (128 + cp div 4096 mod 64),
         char_of (128 + cp div 64 mod 64), char_of (128 + cp mod 64)])"

definition unescape :: "char \<Rightarrow> char option" where
  "unescape e =
     (if e = CHR 0x22 \<or> e = CHR 0x5C \<or> e = CHR ''/'' then Some e
      else if e = CHR ''b'' then Some (CHR 0x08)
      else if e = CHR ''f'' then Some (CHR 0x0C)
      else if e = CHR ''n'' then Some (CHR 0x0A)
      else if e = CHR ''r'' then Some (CHR 0x0D)
      else if e = CHR ''t'' then Some (CHR 0x09)
      else None)"

definition low_surrogate_after :: "nat \<Rightarrow> string \<Rightarrow> nat option" where
  "low_surrogate_after u rest =
     (if 55296 \<le> u \<and> u \<le> 56319 then
        (case rest of
           b # v # digits \<Rightarrow>
             if b = CHR 0x5C \<and> v = CHR ''u'' then
               (case hex4 digits of
                  Some l \<Rightarrow> if 56320 \<le> l \<and> l \<le> 57343 then Some l else None
                | None \<Rightarrow> None)
             else None
         | _ \<Rightarrow> None)
      else None)"

definition emit :: "string \<Rightarrow> nat \<Rightarrow> (string \<times> nat) option \<Rightarrow> (string \<times> nat) option" where
  "emit out n r = map_option (\<lambda>(s, m). (out @ s, n + m)) r"

fun scanstring :: "string \<Rightarrow> (string \<times> nat) option" where
  \<comment> \<open>from after the opening quote: the decoded string and the number of characters read,
      the closing quote among them\<close>
  "scanstring [] = None"
| "scanstring (c # cs) =
     (if c = CHR 0x22 then Some ([], 1)
      else if c = CHR 0x5C then
        (case cs of
           [] \<Rightarrow> None
         | e # es \<Rightarrow>
             if e = CHR ''u'' then
               (case hex4 es of
                  None \<Rightarrow> None
                | Some u \<Rightarrow>
                    (case low_surrogate_after u (drop 4 es) of
                       Some l \<Rightarrow>
                         emit (utf8_encode (65536 + (u - 55296) * 1024 + (l - 56320))) 12
                           (scanstring (drop 10 es))
                     | None \<Rightarrow> emit (utf8_encode u) 6 (scanstring (drop 4 es))))
             else
               (case unescape e of
                  None \<Rightarrow> None
                | Some ch \<Rightarrow> emit [ch] 2 (scanstring es)))
      else if (of_char c :: nat) < 32 then None
      else emit [c] 1 (scanstring cs))"

subsection \<open>Numbers\<close>

definition match_number :: "string \<Rightarrow> ((exn + pyobj) \<times> nat) option" where
  \<comment> \<open>the match of \<^verbatim>\<open>(-?(?:0|[1-9][0-9]*))(\.[0-9]+)?([eE][-+]?[0-9]+)?\<close> at the start of
      the text: its value and its length\<close>
  "match_number s =
     (let neg = (case s of c # _ \<Rightarrow> c = CHR ''-'' | [] \<Rightarrow> False);
          s1 = (if neg then tl s else s);
          ip = (case s1 of
                  c # _ \<Rightarrow> if c = CHR ''0'' then [c] else takeWhile is_digit s1
                | [] \<Rightarrow> []);
          s2 = drop (length ip) s1;
          fp = (case s2 of c # r \<Rightarrow> if c = CHR ''.'' then takeWhile is_digit r else [] | [] \<Rightarrow> []);
          s3 = (if fp = [] then s2 else drop (Suc (length fp)) s2);
          sg = (case s3 of
                  c # d # _ \<Rightarrow>
                    if (c = CHR ''e'' \<or> c = CHR ''E'') \<and> (d = CHR ''+'' \<or> d = CHR ''-'') then [d] else []
                | _ \<Rightarrow> []);
          ep = (case s3 of
                  c # r \<Rightarrow>
                    if c = CHR ''e'' \<or> c = CHR ''E'' then takeWhile is_digit (drop (length sg) r)
                    else []
                | [] \<Rightarrow> []);
          n = (if neg then 1 else 0) + length ip
                + (if fp = [] then 0 else Suc (length fp))
                + (if ep = [] then 0 else Suc (length sg + length ep))
      in if ip = [] then None
         else if fp = [] \<and> ep = [] then
           Some (if int_max_str_digits < length ip then Inl ValueError
                 else Inr (PyInt (if neg then - int_of_digits ip else int_of_digits ip)), n)
         else
           Some (Inr (PyFloat (float_of_decimal neg (int_of_digits (ip @ fp))
                   ((if sg = ''-'' then - int_of_digits ep else int_of_digits ep)
                      - int (length fp)))), n))"

subsection \<open>Tokens\<close>

datatype token = LBrace | RBrace | LBracket | RBracket | Comma | Colon | Value pyobj | Bad exn

definition json_space :: "char \<Rightarrow> bool" where
  "json_space c = (c = CHR 0x20 \<or> c = CHR 0x09 \<or> c = CHR 0x0A \<or> c = CHR 0x0D)"

fun tokens :: "string \<Rightarrow> token list" where
  \<comment> \<open>the tokens of a text, up to the first place where no token starts\<close>
  "tokens [] = []"
| "tokens (c # cs) =
     (if json_space c then tokens cs
      else if c = CHR ''{'' then LBrace # tokens cs
      else if c = CHR ''}'' then RBrace # tokens cs
      else if c = CHR ''['' then LBracket # tokens cs
      else if c = CHR '']'' then RBracket # tokens cs
      else if c = CHR '','' then Comma # tokens cs
      else if c = CHR '':'' then Colon # tokens cs
      else if c = CHR 0x22 then
        (case scanstring cs of
           None \<Rightarrow> [Bad JSONDecodeError]
         | Some (s, n) \<Rightarrow> Value (PyStr s) # tokens (drop n cs))
      else if prefix ''null'' (c # cs) then Value PyNone # tokens (drop 3 cs)
      else if prefix ''true'' (c # cs) then Value (PyBool True) # tokens (drop 3 cs)
      else if prefix ''false'' (c # cs) then Value (PyBool False) # tokens (drop 4 cs)
      else
        (case match_number (c # cs) of
           Some (Inr v, n) \<Rightarrow> Value v # tokens (drop (n - 1) cs)
         | Some (Inl e, n) \<Rightarrow> [Bad e]
         | None \<Rightarrow>
             if prefix ''NaN'' (c # cs) then Value (PyFloat NaN) # tokens (drop 2 cs)
             else if prefix ''Infinity'' (c # cs) then Value (PyFloat PosInf) # tokens (drop 7 cs)
             else if prefix ''-Infinity'' (c # cs) then Value (PyFloat NegInf) # tokens (drop 8 cs)
             else [Bad JSONDecodeError]))"

subsection \<open>Grammar\<close>

datatype frame =
    InList "pyobj list"
  | InDict "(string \<times> pyobj) list"
  | InEntry "(string \<times> pyobj) list" string

datatype expect = AValue | AValueOrClose | AKey | AKeyOrClose | AColon | ACommaOrClose | TheEnd pyobj

fun complete :: "pyobj \<Rightarrow> frame list \<Rightarrow> (expect \<times> frame list) option" where
  \<comment> \<open>a value is complete: it is the result, an item of the open list, or the value of the
      open entry (\<^verbatim>\<open>dict(pairs)\<close>: a later value replaces an earlier one in its place)\<close>
  "complete v [] = Some (TheEnd v, [])"
| "complete v (InList xs # st) = Some (ACommaOrClose, InList (xs @ [v]) # st)"
| "complete v (InEntry ps k # st) = Some (ACommaOrClose, InDict (AList.update k v ps) # st)"
| "complete v (InDict ps # st) = None"

fun parse :: "expect \<Rightarrow> frame list \<Rightarrow> token list \<Rightarrow> exn + pyobj" where
  "parse (TheEnd v) st [] = Inr v"
| "parse ex st [] = Inl JSONDecodeError"
| "parse (TheEnd v) st (t # ts) = Inl JSONDecodeError"
| "parse AColon st (t # ts) = (if t = Colon then parse AValue st ts else Inl JSONDecodeError)"
| "parse ACommaOrClose st (t # ts) =
     (case st of
        InList xs # st' \<Rightarrow>
          if t = Comma then parse AValue st ts
          else if t = RBracket then
            (case complete (PyList xs) st' of
               Some (ex, st'') \<Rightarrow> parse ex st'' ts
             | None \<Rightarrow> Inl JSONDecodeError)
          else Inl JSONDecodeError
      | InDict ps # st' \<Rightarrow>
          if t = Comma then parse AKey st ts
          else if t = RBrace then
            (case complete (PyDict ps) st' of
               Some (ex, st'') \<Rightarrow> parse ex st'' ts
             | None \<Rightarrow> Inl JSONDecodeError)
          else Inl JSONDecodeError
      | _ \<Rightarrow> Inl JSONDecodeError)"
| "parse AKey st (t # ts) =
     (case (t, st) of
        (Value (PyStr k), InDict ps # st') \<Rightarrow> parse AColon (InEntry ps k # st') ts
      | _ \<Rightarrow> Inl JSONDecodeError)"
| "parse AKeyOrClose st (t # ts) =
     (case (t, st) of
        (Value (PyStr k), InDict ps # st') \<Rightarrow> parse AColon (InEntry ps k # st') ts
      | (RBrace, InDict ps # st') \<Rightarrow>
          (case complete (PyDict ps) st' of
             Some (ex, st'') \<Rightarrow> parse ex st'' ts
           | None \<Rightarrow> Inl JSONDecodeError)
      | _ \<Rightarrow> Inl JSONDecodeError)"
| "parse AValue st (t # ts) =
     (case t of
        Value v \<Rightarrow>
          (case complete v st of
             Some (ex, st') \<Rightarrow> parse ex st' ts
           | None \<Rightarrow> Inl JSONDecodeError)
      | LBracket \<Rightarrow> parse AValueOrClose (InList [] # st) ts
      | LBrace \<Rightarrow> parse AKeyOrClose (InDict [] # st) ts
      | Bad e \<Rightarrow> Inl e
      | _ \<Rightarrow> Inl JSONDecodeError)"
| "parse AValueOrClose st (t # ts) =
     (case t of
        Value v \<Rightarrow>
          (case complete v st of
             Some (ex, st') \<Rightarrow> parse ex st' ts
           | None \<Rightarrow> Inl JSONDecodeError)
      | LBracket \<Rightarrow> parse AValueOrClose (InList [] # st) ts
      | LBrace \<Rightarrow> parse AKeyOrClose (InDict [] # st) ts
      | RBracket \<Rightarrow>
          (case st of
             InList xs # st' \<Rightarrow>
               (case complete (PyList xs) st' of
                  Some (ex, st'') \<Rightarrow> parse ex st'' ts
                | None \<Rightarrow> Inl JSONDecodeError)
           | _ \<Rightarrow> Inl JSONDecodeError)
      | Bad e \<Rightarrow> Inl e
      | _ \<Rightarrow> Inl JSONDecodeError)"

definition json_loads :: "string \<Rightarrow> exn + pyobj" where
  \<comment> \<open>\<^verbatim>\<open>json.loads(s)\<close> for a text \<^verbatim>\<open>s\<close>\<close>
  "json_loads s = parse AValue [] (tokens s)"

section \<open>The resilient parser\<close>

text \<open>
  \<^verbatim>\<open>safe_json_loads\<close>, lines 27 to 42. The pattern \<^verbatim>\<open>\{.*\}\<close> with \<^verbatim>\<open>re.DOTALL\<close> matches from
  the first opening brace to the last closing brace after it. What the function
  prints is the second component of its result, one string for each \<^verbatim>\<open>print\<close>.
\<close>

definition brace_block :: "string \<Rightarrow> string option" where
  \<comment> \<open>\<^verbatim>\<open>match.group(0)\<close> of the search, \<open>None\<close> when there is no match\<close>
  "brace_block s =
     (case dropWhile (\<lambda>c. c \<noteq> CHR ''{'') s of
        [] \<Rightarrow> None
      | c # rest \<Rightarrow>
          (case dropWhile (\<lambda>c. c \<noteq> CHR ''}'') (rev rest) of
             [] \<Rightarrow> None
           | d # inner \<Rightarrow> Some (c # rev (d # inner))))"

definition warning :: "string \<Rightarrow> string" where
  \<comment> \<open>the line printed when both attempts fail\<close>
  "warning context_label = ''[WARN] Failed to parse JSON for '' @ context_label"

definition safe_json_loads ::
  "(string \<Rightarrow> exn + pyobj) \<Rightarrow> string \<Rightarrow> string \<Rightarrow> exn + pyobj \<times> string list" where
  "safe_json_loads loads raw_text context_label =
     (case loads raw_text of
        Inr v \<Rightarrow> Inr (v, [])
      | Inl JSONDecodeError \<Rightarrow>
          (case brace_block raw_text of
             None \<Rightarrow> Inr (PyNone, [warning context_label])
           | Some block \<Rightarrow>
               (case loads block of
                  Inr v \<Rightarrow> Inr (v, [])
                | Inl JSONDecodeError \<Rightarrow> Inr (PyNone, [warning context_label])
                | Inl e \<Rightarrow> Inl e))
      | Inl e \<Rightarrow> Inl e)"

section \<open>The signal profiler and the unit tagger\<close>

text \<open>
  \<^verbatim>\<open>extract_signal_weights\<close> (line 59 and lines 123 to 131) and \<^verbatim>\<open>tag_resume_bullets\<close>
  (line 139 and lines 188 to 195), from the text of the oracle's reply on. Calling \<^verbatim>\<open>.setdefault\<close> or \<^verbatim>\<open>.get\<close> on an
  object that is no dictionary raises \<^verbatim>\<open>AttributeError\<close>.
\<close>

definition extract_signal_weights ::
  "(string \<Rightarrow> exn + pyobj) \<Rightarrow> string \<Rightarrow> exn + pyobj \<times> string list" where
  "extract_signal_weights loads response_text =
     (case safe_json_loads loads response_text ''JD signals'' of
        Inl e \<Rightarrow> Inl e
      | Inr (data, out) \<Rightarrow>
          if \<not> truthy data
          then Inr (PyNone, ''\<newline>[1/4] Extracting and weighting JD signals...'' # out)
          else
            (case data of
               PyDict kvs \<Rightarrow>
                 Inr (PyDict
                        (setdefault ''domain_phrases'' (PyList [])
                          (setdefault ''top_keywords'' (PyList [])
                            (setdefault ''top_5_signals'' (PyList [])
                              (setdefault ''signal_weights'' (PyDict []) kvs)))),
                      ''\<newline>[1/4] Extracting and weighting JD signals...'' # out)
             | _ \<Rightarrow> Inl AttributeError))"

definition tag_resume_bullets ::
  "(string \<Rightarrow> exn + pyobj) \<Rightarrow> string \<Rightarrow> exn + pyobj list \<times> string list" where
  "tag_resume_bullets loads response_text =
     (case safe_json_loads loads response_text ''bullet tagging'' of
        Inl e \<Rightarrow> Inl e
      | Inr (data, out) \<Rightarrow>
          if \<not> truthy data
          then Inr ([], ''[2/4] Semantically tagging resume bullets...'' # out)
          else
            (case py_get data (PyStr ''tagged_bullets'') (PyList []) of
               Inl e \<Rightarrow> Inl e
             | Inr tagged \<Rightarrow>
                 (case tagged of
                    PyList bullets \<Rightarrow>
                      Inr (bullets, ''[2/4] Semantically tagging resume bullets...'' # out)
                  | _ \<Rightarrow> Inr ([], ''[2/4] Semantically tagging resume bullets...'' # out))))"

text \<open>
  \<^verbatim>\<open>main\<close>, lines 388 to 397, with the scoring of \<^verbatim>\<open>score_and_adjust_bullets\<close>: the bullets
  that the tagger returns go to the scorer, after a warning when there are none.
\<close>

definition main_tag_and_score ::
  "(string \<Rightarrow> exn + pyobj) \<Rightarrow> pyobj \<Rightarrow> string \<Rightarrow> exn + scored_bullet list \<times> string list" where
  "main_tag_and_score loads jd_signals response_text =
     (case tag_resume_bullets loads response_text of
        Inl e \<Rightarrow> Inl e
      | Inr (tagged_bullets, out) \<Rightarrow>
          (case scored_bullets jd_signals tagged_bullets of
             Inl e \<Rightarrow> Inl e
           | Inr scored \<Rightarrow>
               Inr (scored,
                    out
                    @ (if tagged_bullets = []
                       then [''[WARN] No tagged bullets returned. Tailoring will be more generic.'']
                       else [])
                    @ [''\<newline>Pausing for 10 seconds for API Rate Limits...'',
                       ''[3/4] Computing dynamic alignment scores and executing LaTeX adjustments...''])))"

section \<open>What the specification says\<close>

definition weight_of :: "(string \<times> int) list \<Rightarrow> string \<Rightarrow> int" where
  \<comment> \<open>the weight of a cluster, 0 for a cluster that the mapping does not hold\<close>
  "weight_of weights tag = (case map_of weights tag of Some n \<Rightarrow> n | None \<Rightarrow> 0)"

definition int_weights :: "(string \<times> int) list \<Rightarrow> pyobj" where
  \<comment> \<open>a weights mapping as the dictionary that the scorer receives\<close>
  "int_weights weights = PyDict (map (\<lambda>(k, n). (k, PyInt n)) weights)"

definition tagged_unit :: "string \<Rightarrow> string list \<Rightarrow> pyobj" where
  \<comment> \<open>a tagged unit as the dictionary that the scorer receives\<close>
  "tagged_unit txt ts = PyDict [(''bullet_text'', PyStr txt), (''tags'', PyList (map PyStr ts))]"

definition profile :: "(string \<times> int) list \<Rightarrow> pyobj" where
  \<comment> \<open>a topic profile holding a weights mapping, as \<^verbatim>\<open>jd_signals\<close>\<close>
  "profile weights = PyDict [(''signal_weights'', int_weights weights)]"

definition unit_text :: "pyobj \<Rightarrow> pyobj" where
  \<comment> \<open>the text of a unit, the empty string when the field is absent\<close>
  "unit_text b =
     (case b of
        PyDict kvs \<Rightarrow> (case map_of kvs ''bullet_text'' of Some v \<Rightarrow> v | None \<Rightarrow> PyStr [])
      | _ \<Rightarrow> PyStr [])"

definition unit_tags :: "pyobj \<Rightarrow> pyobj" where
  \<comment> \<open>the tags of a unit, the empty list when the field is absent\<close>
  "unit_tags b =
     (case b of
        PyDict kvs \<Rightarrow> (case map_of kvs ''tags'' of Some v \<Rightarrow> v | None \<Rightarrow> PyList [])
      | _ \<Rightarrow> PyList [])"

definition is_list :: "pyobj \<Rightarrow> bool" where
  "is_list x = (case x of PyList _ \<Rightarrow> True | _ \<Rightarrow> False)"

definition carried_tags :: "pyobj \<Rightarrow> pyobj" where
  \<comment> \<open>the tags that a unit keeps: its tags field when that is there and true in Python
      (a list, a string, a mapping that is not empty, a number other than 0, \<^verbatim>\<open>True\<close>), the
      empty list otherwise\<close>
  "carried_tags b = (if truthy (unit_tags b) then unit_tags b else PyList [])"

definition taxonomy_tags :: "pyobj \<Rightarrow> bool" where
  \<comment> \<open>one to three distinct cluster names of the taxonomy\<close>
  "taxonomy_tags t =
     (case t of
        PyList ts \<Rightarrow> 1 \<le> length ts \<and> length ts \<le> 3 \<and> distinct ts
                     \<and> list_all (\<lambda>x. x \<in> PyStr ` set clusters) ts
      | _ \<Rightarrow> False)"

definition occurrences :: "string \<Rightarrow> string \<Rightarrow> nat list" where
  \<comment> \<open>the indices at which a pattern occurs in a text\<close>
  "occurrences pat s = filter (\<lambda>j. prefix pat (drop j s)) [0..<Suc (length s)]"

definition greedy_span :: "string \<Rightarrow> string option" where
  \<comment> \<open>the span that a greedy search finds: from the first begin marker to the last end
      marker after it\<close>
  "greedy_span s =
     (case find_sub begin_marker s of
        None \<Rightarrow> None
      | Some i \<Rightarrow>
          (case occurrences end_marker (drop (i + length begin_marker) s) of
             [] \<Rightarrow> None
           | k # ks \<Rightarrow>
               Some (take (length begin_marker + last (k # ks) + length end_marker) (drop i s))))"

definition undecodable :: "(string \<Rightarrow> exn + pyobj) \<Rightarrow> string \<Rightarrow> bool" where
  \<comment> \<open>decoding fails: neither the text nor its brace block, if it has one, decodes\<close>
  "undecodable loads raw =
     (loads raw = Inl JSONDecodeError
      \<and> (case brace_block raw of None \<Rightarrow> True | Some block \<Rightarrow> loads block = Inl JSONDecodeError))"

definition profile_keys :: "string list" where
  \<comment> \<open>the keys of a topic profile: the weights, the top signals, the top keywords and the
      domain phrases\<close>
  "profile_keys = [''signal_weights'', ''top_5_signals'', ''top_keywords'', ''domain_phrases'']"

definition empty_container :: "string \<Rightarrow> pyobj" where
  \<comment> \<open>an empty mapping for the weights, an empty sequence for the other keys\<close>
  "empty_container k = (if k = ''signal_weights'' then PyDict [] else PyList [])"

definition parser_example :: string where
  \<open>parser_example = ''Note: here is the result\<newline>{"a": 1, "b": [2,3]}\<newline>Thanks''\<close>

text \<open>Replies of the rewrite oracle that the properties below are run on.\<close>

definition wrapped_reply :: string where
  "wrapped_reply =
     ''Here is the resume: ```latex '' @ begin_marker @ ''{article} Hello ''
       @ end_marker @ '' ``` Good luck!''"

definition split_end_reply :: string where
  "split_end_reply = begin_marker @ CHR 0x5C # ''end{docu```ment}'' @ end_marker"

definition two_ends_reply :: string where
  "two_ends_reply = ''x'' @ begin_marker @ '' A'' @ end_marker @ '' B'' @ end_marker"

definition fenced_reply :: string where
  "fenced_reply =
     ''Here you go: ```latex '' @ begin_marker @ ''{article} ```latex Hello ``` ''
       @ end_marker @ '' ``` Good luck!''"

section \<open>Properties of the scorer\<close>

lemma py_get_int_weights:
  "py_get (int_weights weights) (PyStr tag) (PyInt 0) = Inr (PyInt (weight_of weights tag))"
  by (simp add: py_get_def int_weights_def weight_of_def map_of_map split: option.splits)

lemma sum_weights_int_weights:
  "sum_weights (int_weights weights) (map PyStr ts) = Inr (\<Sum>t\<leftarrow>ts. weight_of weights t)"
  by (induction ts) (simp_all add: py_get_int_weights py_int_def)

lemma score_bullet_tagged_unit:
  "score_bullet (int_weights weights) (tagged_unit txt ts) =
     Inr \<lparr>bullet_text = PyStr txt, tags = PyList (map PyStr ts),
          alignment_score = (\<Sum>t\<leftarrow>ts. weight_of weights t)\<rparr>"
proof -
  have tg: "bullet_tags (tagged_unit txt ts) = Inr (PyList (map PyStr ts))"
    by (cases ts) (simp_all add: bullet_tags_def tagged_unit_def py_get_def py_or_def)
  have tx: "py_get (tagged_unit txt ts) (PyStr ''bullet_text'') (PyStr []) = Inr (PyStr txt)"
    by (simp add: tagged_unit_def py_get_def)
  show ?thesis
    by (simp add: score_bullet_def tg tx py_iter_def sum_weights_int_weights)
qed

lemma score_all_well_formed:
  "score_all (int_weights weights) (map (\<lambda>(txt, ts). tagged_unit txt ts) us) =
     Inr (map (\<lambda>(txt, ts). \<lparr>bullet_text = PyStr txt, tags = PyList (map PyStr ts),
                 alignment_score = (\<Sum>t\<leftarrow>ts. weight_of weights t)\<rparr>) us)"
  by (induction us) (auto simp: score_bullet_tagged_unit)

lemma signal_weights_profile:
  "signal_weights (profile weights) = Inr (if weights = [] then PyDict [] else int_weights weights)"
  by (simp add: signal_weights_def profile_def py_get_def py_or_def int_weights_def)

lemma int_weights_Nil: "int_weights [] = PyDict []"
  by (simp add: int_weights_def)

lemma scored_bullets_well_formed:
  "scored_bullets (profile weights) (map (\<lambda>(txt, ts). tagged_unit txt ts) us) =
     Inr (sort_reverse alignment_score
       (map (\<lambda>(txt, ts). \<lparr>bullet_text = PyStr txt, tags = PyList (map PyStr ts),
                 alignment_score = (\<Sum>t\<leftarrow>ts. weight_of weights t)\<rparr>) us))"
  using score_all_well_formed [of weights us]
  by (cases "weights = []")
    (simp_all add: scored_bullets_def signal_weights_profile flip: int_weights_Nil)

text \<open>
  C1. For every list of tagged units and every weights mapping (cluster to integer),
  the scorer returns the units with, as the score of each, the sum of the weights of its
  tags, a tag that the mapping does not hold counting 0, in the order of the sort; so
  for one unit. The score is a function of the tags and the weights alone (the text of
  the unit does not enter it): weights \<open>{backend: 9, frontend: 2}\<close> and tags
  \<open>{backend, frontend}\<close> give 11, and with the tags \<open>{backend, quantum}\<close> they give 9.
\<close>

theorem alignment_score_is_weight_sum:
  "scored_bullets (profile weights) (map (\<lambda>(txt, ts). tagged_unit txt ts) us) =
     Inr (sort_reverse alignment_score
       (map (\<lambda>(txt, ts). \<lparr>bullet_text = PyStr txt, tags = PyList (map PyStr ts),
                 alignment_score = (\<Sum>t\<leftarrow>ts. weight_of weights t)\<rparr>) us))
   \<and> scored_bullets (profile weights) [tagged_unit txt ts] =
       Inr [\<lparr>bullet_text = PyStr txt, tags = PyList (map PyStr ts),
             alignment_score = (\<Sum>t\<leftarrow>ts. weight_of weights t)\<rparr>]
   \<and> (\<exists>u. score_bullet (int_weights weights) (tagged_unit txt ts) = Inr u
        \<and> alignment_score u = (\<Sum>t\<leftarrow>ts. weight_of weights t)
        \<and> (\<forall>txt'. \<exists>u'. score_bullet (int_weights weights) (tagged_unit txt' ts) = Inr u'
              \<and> alignment_score u' = alignment_score u))
   \<and> (\<exists>u. score_bullet (int_weights [(''backend'', 9), (''frontend'', 2)])
              (tagged_unit txt [''backend'', ''frontend'']) = Inr u
          \<and> alignment_score u = 11)
   \<and> scored_bullets (profile [(''backend'', 9), (''frontend'', 2)])
        [tagged_unit txt [''backend'', ''frontend'']] =
       Inr [\<lparr>bullet_text = PyStr txt, tags = PyList [PyStr ''backend'', PyStr ''frontend''],
             alignment_score = 11\<rparr>]
   \<and> scored_bullets (profile [(''backend'', 9), (''frontend'', 2)])
        [tagged_unit txt [''backend'', ''quantum'']] =
       Inr [\<lparr>bullet_text = PyStr txt, tags = PyList [PyStr ''backend'', PyStr ''quantum''],
             alignment_score = 9\<rparr>]"
proof -
  have single: "scored_bullets (profile w) [tagged_unit t s] =
       Inr [\<lparr>bullet_text = PyStr t, tags = PyList (map PyStr s),
             alignment_score = (\<Sum>t\<leftarrow>s. weight_of w t)\<rparr>]" for w t s
    using scored_bullets_well_formed [of w "[(t, s)]"] by (simp add: sort_reverse_def)
  have a: "scored_bullets (profile [(''backend'', 9), (''frontend'', 2)])
        [tagged_unit txt [''backend'', ''frontend'']] =
       Inr [\<lparr>bullet_text = PyStr txt, tags = PyList [PyStr ''backend'', PyStr ''frontend''],
             alignment_score = 11\<rparr>]"
    unfolding single by (simp add: weight_of_def)
  have b: "scored_bullets (profile [(''backend'', 9), (''frontend'', 2)])
        [tagged_unit txt [''backend'', ''quantum'']] =
       Inr [\<lparr>bullet_text = PyStr txt, tags = PyList [PyStr ''backend'', PyStr ''quantum''],
             alignment_score = 9\<rparr>]"
    unfolding single by (simp add: weight_of_def)
  have c1: "\<exists>u. score_bullet (int_weights weights) (tagged_unit txt ts) = Inr u
        \<and> alignment_score u = (\<Sum>t\<leftarrow>ts. weight_of weights t)
        \<and> (\<forall>txt'. \<exists>u'. score_bullet (int_weights weights) (tagged_unit txt' ts) = Inr u'
              \<and> alignment_score u' = alignment_score u)"
    by (simp add: score_bullet_tagged_unit)
  have c2: "\<exists>u. score_bullet (int_weights [(''backend'', 9), (''frontend'', 2)])
              (tagged_unit txt [''backend'', ''frontend'']) = Inr u
          \<and> alignment_score u = 11"
    by (simp add: score_bullet_tagged_unit weight_of_def)
  have s1: "scored_bullets (profile weights) (map (\<lambda>(txt, ts). tagged_unit txt ts) us) =
     Inr (sort_reverse alignment_score
       (map (\<lambda>(txt, ts). \<lparr>bullet_text = PyStr txt, tags = PyList (map PyStr ts),
                 alignment_score = (\<Sum>t\<leftarrow>ts. weight_of weights t)\<rparr>) us))"
    by (rule scored_bullets_well_formed)
  have s2: "scored_bullets (profile weights) [tagged_unit txt ts] =
       Inr [\<lparr>bullet_text = PyStr txt, tags = PyList (map PyStr ts),
             alignment_score = (\<Sum>t\<leftarrow>ts. weight_of weights t)\<rparr>]"
    by (rule single)
  from s1 s2 c1 c2 a b show ?thesis
    by (intro conjI)
qed

subsection \<open>Ranking\<close>

lemma score_all_Inr:
  "score_all w bs = Inr us \<Longrightarrow> list_all2 (\<lambda>b u. score_bullet w b = Inr u) bs us"
  by (induction bs arbitrary: us) (auto split: sum.splits)

lemma scored_bullets_Inr:
  assumes "scored_bullets jd tb = Inr out"
  obtains weights scored where "signal_weights jd = Inr weights"
    and "score_all weights tb = Inr scored"
    and "out = sort_reverse alignment_score scored"
  using assms by (auto simp: scored_bullets_def split: sum.splits)

lemma sort_reverse_descending: "sorted_wrt (\<ge>) (map f (sort_reverse f xs))"
proof -
  have "sorted (map (\<lambda>x. - f x) (sort_key (\<lambda>x. - f x) xs))"
    by (rule sorted_sort_key)
  then have "sorted_wrt (\<lambda>x y. - f x \<le> - f y) (sort_key (\<lambda>x. - f x) xs)"
    by (simp add: sorted_map)
  then show ?thesis
    by (simp add: sort_reverse_def sorted_wrt_map)
qed

lemma sort_reverse_stable:
  "filter (\<lambda>x. f x = k) (sort_reverse f xs) = filter (\<lambda>x. f x = k) xs"
  using sort_key_stable [of "\<lambda>x. - f x" "- k" xs] by (simp add: sort_reverse_def)

lemma mset_sort_reverse: "mset (sort_reverse f xs) = mset xs"
  by (simp add: sort_reverse_def)

lemma length_sort_reverse: "length (sort_reverse f xs) = length xs"
  by (simp add: sort_reverse_def)

lemma sort_reverse_5_9_5_3:
  "f a = 5 \<Longrightarrow> f b = 9 \<Longrightarrow> f c = 5 \<Longrightarrow> f d = 3
     \<Longrightarrow> sort_reverse f [a, b, c, d] = [b, a, c, d]"
  by (simp add: sort_reverse_def)

text \<open>
  C2. Whenever the scorer returns, its list is in descending order of score, and the
  units of any one score stand in the order in which the loop produced them, which is
  the order of the input (\<open>scored\<close> below is the list before the sort, unit by unit the
  score of the input); units that enter with the scores 5, 9, 5, 3 leave in the order
  second, first, third, fourth.
\<close>

theorem ranking_descending_stable:
  assumes "scored_bullets jd_signals tagged_bullets = Inr out"
  shows "\<exists>weights scored.
           signal_weights jd_signals = Inr weights
         \<and> list_all2 (\<lambda>b u. score_bullet weights b = Inr u) tagged_bullets scored
         \<and> sorted_wrt (\<ge>) (map alignment_score out)
         \<and> (\<forall>k. filter (\<lambda>u. alignment_score u = k) out
                = filter (\<lambda>u. alignment_score u = k) scored)
         \<and> (\<forall>a b c d. scored = [a, b, c, d]
                \<and> map alignment_score scored = [5, 9, 5, 3] \<longrightarrow> out = [b, a, c, d])"
proof -
  from assms obtain weights scored where w: "signal_weights jd_signals = Inr weights"
    and s: "score_all weights tagged_bullets = Inr scored"
    and o: "out = sort_reverse alignment_score scored"
    by (rule scored_bullets_Inr)
  have "out = [b, a, c, d]"
    if "scored = [a, b, c, d]" "map alignment_score scored = [5, 9, 5, 3]" for a b c d
    using that by (simp add: o sort_reverse_5_9_5_3)
  then show ?thesis
    using w score_all_Inr [OF s]
    by (auto simp: o sort_reverse_descending sort_reverse_stable)
qed

theorem ranking_descending_stable_witness:
  "scored_bullets (profile [(''backend'', 5), (''frontend'', 9), (''fullstack'', 3)])
     [tagged_unit ''one'' [''backend''], tagged_unit ''two'' [''frontend''],
      tagged_unit ''three'' [''backend''], tagged_unit ''four'' [''fullstack'']]
   = Inr [\<lparr>bullet_text = PyStr ''two'', tags = PyList [PyStr ''frontend''], alignment_score = 9\<rparr>,
          \<lparr>bullet_text = PyStr ''one'', tags = PyList [PyStr ''backend''], alignment_score = 5\<rparr>,
          \<lparr>bullet_text = PyStr ''three'', tags = PyList [PyStr ''backend''], alignment_score = 5\<rparr>,
          \<lparr>bullet_text = PyStr ''four'', tags = PyList [PyStr ''fullstack''], alignment_score = 3\<rparr>]
   \<and> sorted_wrt (\<ge>) [9, 5, 5, (3::int)]"
proof -
  let ?out = "[\<lparr>bullet_text = PyStr ''two'', tags = PyList [PyStr ''frontend''], alignment_score = 9\<rparr>,
          \<lparr>bullet_text = PyStr ''one'', tags = PyList [PyStr ''backend''], alignment_score = 5\<rparr>,
          \<lparr>bullet_text = PyStr ''three'', tags = PyList [PyStr ''backend''], alignment_score = 5\<rparr>,
          \<lparr>bullet_text = PyStr ''four'', tags = PyList [PyStr ''fullstack''], alignment_score = 3\<rparr>]"
  have run: "scored_bullets (profile [(''backend'', 5), (''frontend'', 9), (''fullstack'', 3)])
     [tagged_unit ''one'' [''backend''], tagged_unit ''two'' [''frontend''],
      tagged_unit ''three'' [''backend''], tagged_unit ''four'' [''fullstack'']] = Inr ?out"
    by code_simp
  from ranking_descending_stable [OF run]
  have "sorted_wrt (\<ge>) (map alignment_score ?out)"
    by blast
  with run show ?thesis
    by simp
qed

subsection \<open>Units and tags\<close>

lemma score_bullet_fields:
  assumes "score_bullet w b = Inr u"
  shows "bullet_tags b = Inr (tags u)"
    and "py_get b (PyStr ''bullet_text'') (PyStr []) = Inr (bullet_text u)"
  using assms by (auto simp: score_bullet_def split: sum.splits)

lemma bullet_fields_carried:
  assumes "bullet_tags b = Inr t" and "py_get b (PyStr ''bullet_text'') (PyStr []) = Inr x"
  shows "t = carried_tags b" and "x = unit_text b"
  using assms
  by (auto simp: bullet_tags_def py_get_def unit_tags_def unit_text_def carried_tags_def py_or_def
           split: pyobj.splits option.splits sum.splits if_splits)

lemma carried_tags_list: "is_list (unit_tags b) \<Longrightarrow> carried_tags b = unit_tags b"
  by (cases "unit_tags b") (auto simp: carried_tags_def is_list_def)

lemma units_carried_in_input_order:
  assumes "list_all2 (\<lambda>b u. score_bullet weights b = Inr u) bs us"
  shows "map (\<lambda>u. (bullet_text u, tags u)) us = map (\<lambda>b. (unit_text b, carried_tags b)) bs"
  using assms
proof (induction bs us rule: list_all2_induct)
  case Nil
  then show ?case by simp
next
  case (Cons b bs u us)
  from Cons.hyps(1) have "tags u = carried_tags b" "bullet_text u = unit_text b"
    using bullet_fields_carried [OF score_bullet_fields [of weights b u]] by auto
  with Cons show ?case by simp
qed

text \<open>
  C10 (as the program has it). Whenever the scorer returns, its list is as long as the
  input and holds, unit for unit and as often, the text of the input unit, the empty
  string when that field is absent, and the tags that the unit keeps: its tags field
  when that is there and true in Python, the empty list when the field is absent or
  false in Python (\<^verbatim>\<open>None\<close>, \<^verbatim>\<open>False\<close>, 0, the empty string, the empty mapping). Tags that are a
  list are kept as they are. A scored unit has no other field than the score. On every
  list of units with a text and a list of tag names, and every mapping from clusters to
  integers, the scorer does return.
\<close>

theorem scoring_preserves_units:
  assumes "scored_bullets jd_signals tagged_bullets = Inr out"
  shows "length out = length tagged_bullets
       \<and> mset (map (\<lambda>u. (bullet_text u, tags u)) out)
           = mset (map (\<lambda>b. (unit_text b, carried_tags b)) tagged_bullets)
       \<and> (\<forall>b. truthy (unit_tags b) \<longrightarrow> carried_tags b = unit_tags b)
       \<and> (\<forall>b. \<not> truthy (unit_tags b) \<longrightarrow> carried_tags b = PyList [])
       \<and> (\<forall>b. is_list (unit_tags b) \<longrightarrow> carried_tags b = unit_tags b)
       \<and> ((\<forall>b\<in>set tagged_bullets. is_list (unit_tags b)) \<longrightarrow>
            mset (map (\<lambda>u. (bullet_text u, tags u)) out)
              = mset (map (\<lambda>b. (unit_text b, unit_tags b)) tagged_bullets))
       \<and> (\<forall>weights us. \<exists>out'.
             scored_bullets (profile weights) (map (\<lambda>(txt, ts). tagged_unit txt ts) us) = Inr out'
             \<and> length out' = length us)"
proof -
  from assms(1) obtain weights scored where
    s: "score_all weights tagged_bullets = Inr scored"
    and o: "out = sort_reverse alignment_score scored"
    by (rule scored_bullets_Inr)
  have l2: "list_all2 (\<lambda>b u. score_bullet weights b = Inr u) tagged_bullets scored"
    by (rule score_all_Inr [OF s])
  then have len: "length out = length tagged_bullets"
    by (simp add: o length_sort_reverse list_all2_lengthD)
  have "mset (map (\<lambda>u. (bullet_text u, tags u)) out)
          = mset (map (\<lambda>u. (bullet_text u, tags u)) scored)"
    by (simp add: o mset_sort_reverse)
  with units_carried_in_input_order [OF l2]
  have perm: "mset (map (\<lambda>u. (bullet_text u, tags u)) out)
           = mset (map (\<lambda>b. (unit_text b, carried_tags b)) tagged_bullets)"
    by simp
  have t: "\<forall>b. truthy (unit_tags b) \<longrightarrow> carried_tags b = unit_tags b"
    and f: "\<forall>b. \<not> truthy (unit_tags b) \<longrightarrow> carried_tags b = PyList []"
    by (simp_all add: carried_tags_def)
  have l: "\<forall>b. is_list (unit_tags b) \<longrightarrow> carried_tags b = unit_tags b"
    by (simp add: carried_tags_list)
  have old: "(\<forall>b\<in>set tagged_bullets. is_list (unit_tags b)) \<longrightarrow>
            mset (map (\<lambda>u. (bullet_text u, tags u)) out)
              = mset (map (\<lambda>b. (unit_text b, unit_tags b)) tagged_bullets)"
  proof
    assume "\<forall>b\<in>set tagged_bullets. is_list (unit_tags b)"
    then have "map (\<lambda>b. (unit_text b, carried_tags b)) tagged_bullets
        = map (\<lambda>b. (unit_text b, unit_tags b)) tagged_bullets"
      by (simp add: carried_tags_list)
    with perm show "mset (map (\<lambda>u. (bullet_text u, tags u)) out)
              = mset (map (\<lambda>b. (unit_text b, unit_tags b)) tagged_bullets)"
      by simp
  qed
  have tot: "\<forall>weights us. \<exists>out'.
             scored_bullets (profile weights) (map (\<lambda>(txt, ts). tagged_unit txt ts) us) = Inr out'
             \<and> length out' = length us"
    by (simp add: scored_bullets_well_formed length_sort_reverse)
  from len perm t f l old tot show ?thesis
    by (intro conjI)
qed

theorem scoring_preserves_units_witness:
  "scored_bullets (profile [(''backend'', 9), (''frontend'', 2)])
     [PyDict [(''bullet_text'', PyStr ''Built the UI''), (''tags'', PyList [PyStr ''frontend''])],
      PyDict [(''tags'', PyList [PyStr ''backend'', PyStr ''frontend''])],
      PyDict [(''bullet_text'', PyStr ''Wrote the docs'')]]
   = Inr [\<lparr>bullet_text = PyStr [], tags = PyList [PyStr ''backend'', PyStr ''frontend''],
           alignment_score = 11\<rparr>,
          \<lparr>bullet_text = PyStr ''Built the UI'', tags = PyList [PyStr ''frontend''],
           alignment_score = 2\<rparr>,
          \<lparr>bullet_text = PyStr ''Wrote the docs'', tags = PyList [], alignment_score = 0\<rparr>]
   \<and> length [\<lparr>bullet_text = PyStr [], tags = PyList [PyStr ''backend'', PyStr ''frontend''],
           alignment_score = 11\<rparr>,
          \<lparr>bullet_text = PyStr ''Built the UI'', tags = PyList [PyStr ''frontend''],
           alignment_score = 2\<rparr>,
          \<lparr>bullet_text = PyStr ''Wrote the docs'', tags = PyList [], alignment_score = 0\<rparr>]
       = (3::nat)"
proof -
  let ?in = "[PyDict [(''bullet_text'', PyStr ''Built the UI''), (''tags'', PyList [PyStr ''frontend''])],
      PyDict [(''tags'', PyList [PyStr ''backend'', PyStr ''frontend''])],
      PyDict [(''bullet_text'', PyStr ''Wrote the docs'')]]"
  let ?out = "[\<lparr>bullet_text = PyStr [], tags = PyList [PyStr ''backend'', PyStr ''frontend''],
           alignment_score = 11\<rparr>,
          \<lparr>bullet_text = PyStr ''Built the UI'', tags = PyList [PyStr ''frontend''],
           alignment_score = 2\<rparr>,
          \<lparr>bullet_text = PyStr ''Wrote the docs'', tags = PyList [], alignment_score = 0\<rparr>]"
  have run: "scored_bullets (profile [(''backend'', 9), (''frontend'', 2)]) ?in = Inr ?out"
    by code_simp
  from scoring_preserves_units [OF run] have "length ?out = length ?in"
    by (rule conjunct1)
  with run show ?thesis
    by simp
qed

text \<open>
  C10 as the specification words it fails on a unit whose tags field is there and false
  in Python: \<^verbatim>\<open>or []\<close> at line 209 puts the empty list in its place, so the tags of the
  scored unit are not those of the input.
\<close>

theorem scoring_null_tags_counterexample:
  "scored_bullets (profile [(''backend'', 9)])
     [PyDict [(''bullet_text'', PyStr ''Led the team''), (''tags'', PyNone)]]
   = Inr [\<lparr>bullet_text = PyStr ''Led the team'', tags = PyList [], alignment_score = 0\<rparr>]
   \<and> unit_tags (PyDict [(''bullet_text'', PyStr ''Led the team''), (''tags'', PyNone)]) = PyNone
   \<and> scored_bullets (profile [(''backend'', 9)])
     [PyDict [(''bullet_text'', PyStr ''Led the team''), (''tags'', PyStr [])]]
   = Inr [\<lparr>bullet_text = PyStr ''Led the team'', tags = PyList [], alignment_score = 0\<rparr>]
   \<and> unit_tags (PyDict [(''bullet_text'', PyStr ''Led the team''), (''tags'', PyStr [])]) = PyStr []"
  by code_simp

lemma sum_weights_unknown:
  assumes "k \<notin> fst ` set kvs"
  shows "sum_weights (PyDict kvs) (xs @ PyStr k # ys) = sum_weights (PyDict kvs) (xs @ ys)"
proof -
  from assms have "map_of kvs k = None"
    by (simp add: map_of_eq_None_iff)
  then have "py_get (PyDict kvs) (PyStr k) (PyInt 0) = Inr (PyInt 0)"
    by (simp add: py_get_def)
  then have "sum_weights (PyDict kvs) (PyStr k # ys) = sum_weights (PyDict kvs) ys"
    by (simp add: py_int_def split: sum.splits)
  then show ?thesis
    by (induction xs) (simp_all split: sum.splits)
qed

lemma tagged_unit_tags: "bullet_tags (tagged_unit txt ts) = Inr (PyList (map PyStr ts))"
  by (cases ts) (simp_all add: bullet_tags_def tagged_unit_def py_get_def py_or_def)

lemma score_bullet_unknown:
  assumes "k \<notin> fst ` set kvs"
  shows "map_sum id alignment_score (score_bullet (PyDict kvs) (tagged_unit txt (xs @ k # ys)))
       = map_sum id alignment_score (score_bullet (PyDict kvs) (tagged_unit txt (xs @ ys)))"
proof -
  have tx: "py_get (tagged_unit txt ts) (PyStr ''bullet_text'') (PyStr []) = Inr (PyStr txt)" for ts
    by (simp add: tagged_unit_def py_get_def)
  show ?thesis
    using sum_weights_unknown [OF assms, of "map PyStr xs" "map PyStr ys"]
    by (simp add: score_bullet_def tagged_unit_tags tx py_iter_def split: sum.splits)
qed

lemma scored_tags_from_input:
  assumes "scored_bullets jd tb = Inr out" and "u \<in> set out"
  shows "\<exists>b\<in>set tb. bullet_tags b = Inr (tags u)"
proof -
  from assms(1) obtain weights scored where
    s: "score_all weights tb = Inr scored"
    and o: "out = sort_reverse alignment_score scored"
    by (rule scored_bullets_Inr)
  from assms(2) have "u \<in> set scored"
    by (simp add: o sort_reverse_def)
  then obtain i where i: "i < length scored" "u = scored ! i"
    by (auto simp: in_set_conv_nth)
  from score_all_Inr [OF s] i have "tb ! i \<in> set tb" "score_bullet weights (tb ! i) = Inr u"
    by (simp_all add: list_all2_conv_all_nth)
  then show ?thesis
    using score_bullet_fields(1) by blast
qed

lemma taxonomy_tags_kept:
  assumes "taxonomy_tags (unit_tags b)" and "bullet_tags b = Inr t"
  shows "t = unit_tags b"
  using assms
  by (auto simp: bullet_tags_def py_get_def unit_tags_def taxonomy_tags_def py_or_def
           split: pyobj.splits option.splits sum.splits if_splits)

text \<open>
  C9 (as the program has it). The scorer does not check tags: the tags of a scored unit
  are the tags of a unit of the input, whatever they are. So the scored units carry one
  to three distinct clusters of the taxonomy each whenever the tagged units do. A tag
  that the weights mapping does not hold counts 0: the unit scores as it does with that
  tag left out; this is so for every tag outside the taxonomy when the keys of the
  mapping are clusters of the taxonomy.
\<close>

theorem scorer_keeps_input_tags:
  assumes "scored_bullets jd_signals tagged_bullets = Inr out"
  shows "(\<forall>u\<in>set out. \<exists>b\<in>set tagged_bullets. bullet_tags b = Inr (tags u))
       \<and> ((\<forall>b\<in>set tagged_bullets. taxonomy_tags (unit_tags b))
            \<longrightarrow> (\<forall>u\<in>set out. taxonomy_tags (tags u)))
       \<and> (\<forall>kvs k txt xs ys. k \<notin> fst ` set kvs \<or> (fst ` set kvs \<subseteq> set clusters \<and> k \<notin> set clusters)
            \<longrightarrow> map_sum id alignment_score
                  (score_bullet (PyDict kvs) (tagged_unit txt (xs @ k # ys)))
              = map_sum id alignment_score
                  (score_bullet (PyDict kvs) (tagged_unit txt (xs @ ys))))"
proof (intro conjI ballI impI allI)
  fix u assume "u \<in> set out"
  then show "\<exists>b\<in>set tagged_bullets. bullet_tags b = Inr (tags u)"
    by (rule scored_tags_from_input [OF assms])
next
  fix u
  assume all: "\<forall>b\<in>set tagged_bullets. taxonomy_tags (unit_tags b)" and u: "u \<in> set out"
  from scored_tags_from_input [OF assms u] obtain b
    where b: "b \<in> set tagged_bullets" "bullet_tags b = Inr (tags u)"
    by blast
  from all b(1) have "taxonomy_tags (unit_tags b)"
    by (rule bspec)
  from taxonomy_tags_kept [OF this b(2)] this show "taxonomy_tags (tags u)"
    by simp
next
  fix kvs :: "(string \<times> pyobj) list" and k tx xs ys
  assume "k \<notin> fst ` set kvs \<or> (fst ` set kvs \<subseteq> set clusters \<and> k \<notin> set clusters)"
  then have "k \<notin> fst ` set kvs"
    by (elim disjE conjE) (assumption, erule contra_subsetD, assumption)
  then show "map_sum id alignment_score
                  (score_bullet (PyDict kvs) (tagged_unit tx (xs @ k # ys)))
              = map_sum id alignment_score
                  (score_bullet (PyDict kvs) (tagged_unit tx (xs @ ys)))"
    by (rule score_bullet_unknown)
qed


theorem scorer_keeps_input_tags_witness:
  "scored_bullets (profile [(''backend'', 9), (''frontend'', 2)])
     [tagged_unit ''Built the UI'' [''frontend'', ''backend'']]
   = Inr [\<lparr>bullet_text = PyStr ''Built the UI'',
           tags = PyList [PyStr ''frontend'', PyStr ''backend''], alignment_score = 11\<rparr>]
   \<and> taxonomy_tags (PyList [PyStr ''frontend'', PyStr ''backend''])
   \<and> map_sum id alignment_score
         (score_bullet (PyDict [(''backend'', PyInt 9)])
            (tagged_unit ''Built the UI'' [''backend'', ''quantum'']))
       = map_sum id alignment_score
         (score_bullet (PyDict [(''backend'', PyInt 9)]) (tagged_unit ''Built the UI'' [''backend'']))"
proof -
  define unit where "unit = tagged_unit ''Built the UI'' [''frontend'', ''backend'']"
  define u where "u = \<lparr>bullet_text = PyStr ''Built the UI'',
           tags = PyList [PyStr ''frontend'', PyStr ''backend''], alignment_score = 11\<rparr>"
  define kvs where "kvs = [(''backend'', PyInt 9)]"
  have run: "scored_bullets (profile [(''backend'', 9), (''frontend'', 2)]) [unit] = Inr [u]"
    unfolding unit_def u_def by code_simp
  have tax: "\<forall>b\<in>set [unit]. taxonomy_tags (unit_tags b)"
    unfolding unit_def by (simp add: taxonomy_tags_def unit_tags_def tagged_unit_def clusters_def)
  have unk: "''quantum'' \<notin> fst ` set kvs \<or> (fst ` set kvs \<subseteq> set clusters \<and> ''quantum'' \<notin> set clusters)"
    unfolding kvs_def by simp
  note closure = scorer_keeps_input_tags [OF run]
  from closure have "(\<forall>b\<in>set [unit]. taxonomy_tags (unit_tags b))
            \<longrightarrow> (\<forall>u\<in>set [u]. taxonomy_tags (tags u))"
    by (elim conjE)
  with tax have "\<forall>u\<in>set [u]. taxonomy_tags (tags u)"
    by (rule rev_mp)
  then have t: "taxonomy_tags (tags u)"
    by simp
  from closure have "\<forall>kvs k txt xs ys. k \<notin> fst ` set kvs \<or> (fst ` set kvs \<subseteq> set clusters \<and> k \<notin> set clusters)
            \<longrightarrow> map_sum id alignment_score
                  (score_bullet (PyDict kvs) (tagged_unit txt (xs @ k # ys)))
              = map_sum id alignment_score
                  (score_bullet (PyDict kvs) (tagged_unit txt (xs @ ys)))"
    by (elim conjE)
  then have "''quantum'' \<notin> fst ` set kvs \<or> (fst ` set kvs \<subseteq> set clusters \<and> ''quantum'' \<notin> set clusters)
            \<longrightarrow> map_sum id alignment_score
                  (score_bullet (PyDict kvs) (tagged_unit ''Built the UI'' ([''backend''] @ ''quantum'' # [])))
              = map_sum id alignment_score
                  (score_bullet (PyDict kvs) (tagged_unit ''Built the UI'' ([''backend''] @ [])))"
    by (elim allE)
  with unk have e: "map_sum id alignment_score
                  (score_bullet (PyDict kvs) (tagged_unit ''Built the UI'' ([''backend''] @ ''quantum'' # [])))
              = map_sum id alignment_score
                  (score_bullet (PyDict kvs) (tagged_unit ''Built the UI'' ([''backend''] @ [])))"
    by (rule rev_mp)
  show ?thesis
    using run t e unfolding unit_def u_def kvs_def by simp
qed


text \<open>
  C9 as the specification words it fails: a unit that arrives with four tags, one of
  them twice and one outside the taxonomy, leaves the scorer with these tags.
\<close>

theorem taxonomy_closure_counterexample:
  "scored_bullets (profile [(''backend'', 9), (''frontend'', 2)])
     [tagged_unit ''Built the UI'' [''quantum'', ''backend'', ''backend'', ''frontend'']]
   = Inr [\<lparr>bullet_text = PyStr ''Built the UI'',
           tags = PyList [PyStr ''quantum'', PyStr ''backend'', PyStr ''backend'', PyStr ''frontend''],
           alignment_score = 20\<rparr>]
   \<and> ''quantum'' \<notin> set clusters
   \<and> \<not> taxonomy_tags
         (PyList [PyStr ''quantum'', PyStr ''backend'', PyStr ''backend'', PyStr ''frontend''])"
proof (intro conjI)
  show "scored_bullets (profile [(''backend'', 9), (''frontend'', 2)])
     [tagged_unit ''Built the UI'' [''quantum'', ''backend'', ''backend'', ''frontend'']]
   = Inr [\<lparr>bullet_text = PyStr ''Built the UI'',
           tags = PyList [PyStr ''quantum'', PyStr ''backend'', PyStr ''backend'', PyStr ''frontend''],
           alignment_score = 20\<rparr>]"
    by code_simp
  show "''quantum'' \<notin> set clusters"
    by (simp add: clusters_def)
  show "\<not> taxonomy_tags
         (PyList [PyStr ''quantum'', PyStr ''backend'', PyStr ''backend'', PyStr ''frontend''])"
    by (simp add: taxonomy_tags_def)
qed

section \<open>Properties of the extraction\<close>

subsection \<open>Searching\<close>

lemma find_sub_Some:
  "find_sub pat s = Some i \<Longrightarrow> prefix pat (drop i s) \<and> i \<le> length s"
proof (induction s arbitrary: i)
  case Nil
  then show ?case by (simp split: if_splits)
next
  case (Cons c cs)
  then show ?case by (auto split: if_splits)
qed

lemma find_sub_first:
  "find_sub pat s = Some i \<Longrightarrow> j < i \<Longrightarrow> \<not> prefix pat (drop j s)"
proof (induction s arbitrary: i j)
  case Nil
  then show ?case by (simp split: if_splits)
next
  case (Cons c cs)
  show ?case
  proof (cases j)
    case 0
    with Cons.prems show ?thesis by (auto split: if_splits)
  next
    case (Suc j')
    with Cons.prems Cons.IH show ?thesis by (auto split: if_splits)
  qed
qed

lemma find_sub_None:
  "find_sub pat s = None \<Longrightarrow> \<not> prefix pat (drop j s)"
proof (induction s arbitrary: j)
  case Nil
  then show ?case by (simp split: if_splits)
next
  case (Cons c cs)
  then show ?case by (cases j) (auto split: if_splits)
qed

lemma find_sub_prefix: "pat \<noteq> [] \<Longrightarrow> prefix pat s \<Longrightarrow> find_sub pat s = Some 0"
  by (cases s) auto

lemma find_sub_take:
  "find_sub pat s = Some k \<Longrightarrow> find_sub pat (take (k + length pat) s) = Some k"
proof (induction s arbitrary: k)
  case Nil
  then show ?case by (simp split: if_splits)
next
  case (Cons c cs)
  show ?case
  proof (cases "prefix pat (c # cs)")
    case True
    with Cons.prems have k: "k = 0" by simp
    from True have "prefix pat (take (length pat) (c # cs))"
      by (metis append_eq_conv_conj prefix_def prefix_order.order_refl)
    moreover from True have "pat \<noteq> [] \<Longrightarrow> take (length pat) (c # cs) \<noteq> []"
      by auto
    ultimately show ?thesis
      using k True by (cases pat) (auto simp: find_sub_prefix)
  next
    case False
    with Cons.prems obtain k' where k': "k = Suc k'" "find_sub pat cs = Some k'"
      by auto
    have "\<not> prefix pat (c # take (k' + length pat) cs)"
      using False by (metis prefix_order.trans take_is_prefix take_Suc_Cons)
    with Cons.IH [OF k'(2)] k' show ?thesis by simp
  qed
qed

lemma length_markers [simp]: "length begin_marker = 14" "length end_marker = 14"
  by (simp_all add: begin_marker_def end_marker_def)

lemma document_span_Some:
  assumes "document_span raw = Some d"
  obtains i k where "find_sub begin_marker raw = Some i"
    and "find_sub end_marker (drop (i + 14) raw) = Some k"
    and "d = take (28 + k) (drop i raw)"
    and "length d = 28 + k"
proof -
  from assms obtain i k where i: "find_sub begin_marker raw = Some i"
    and k: "find_sub end_marker (drop (i + 14) raw) = Some k"
    and d: "d = take (28 + k) (drop i raw)"
    by (auto simp: document_span_def split: option.splits)
  from find_sub_Some [OF k] have "prefix end_marker (drop k (drop (i + 14) raw))" by simp
  then have "14 \<le> length (drop k (drop (i + 14) raw))"
    using prefix_length_le by fastforce
  then have "length d = 28 + k"
    by (simp add: d)
  with i k d show ?thesis
    by (rule that)
qed

lemma document_span_shape:
  assumes "document_span raw = Some d"
  shows "\<exists>pre post. raw = pre @ d @ post
           \<and> prefix begin_marker d \<and> suffix end_marker d
           \<and> (\<forall>j<length pre. \<not> prefix begin_marker (drop j raw))
           \<and> (\<forall>j. 14 \<le> j \<and> j < length d - 14 \<longrightarrow> \<not> prefix end_marker (drop j d))"
proof -
  from assms obtain i k where i: "find_sub begin_marker raw = Some i"
    and k: "find_sub end_marker (drop (i + 14) raw) = Some k"
    and d: "d = take (28 + k) (drop i raw)"
    and len: "length d = 28 + k"
    by (rule document_span_Some)
  let ?pre = "take i raw" and ?post = "drop (28 + k) (drop i raw)"
  have "drop i raw = d @ ?post"
    unfolding d by (rule append_take_drop_id [symmetric])
  then have raw: "raw = ?pre @ d @ ?post"
    by (metis append_take_drop_id)
  have ile: "i \<le> length raw"
    using find_sub_Some [OF i] by simp
  have "prefix begin_marker (drop i raw)"
    using find_sub_Some [OF i] by simp
  then have "prefix begin_marker (take 14 (drop i raw))"
    by (metis length_markers(1) append_eq_conv_conj prefix_def prefix_order.order_refl)
  moreover have "take 14 (drop i raw) = take 14 d"
    unfolding d by simp
  then have "prefix (take 14 (drop i raw)) d"
    by (simp add: take_is_prefix)
  ultimately have b: "prefix begin_marker d"
    by (rule prefix_order.trans)
  have "prefix end_marker (drop k (drop (i + 14) raw))"
    using find_sub_Some [OF k] by simp
  then have "take 14 (drop (14 + k) (drop i raw)) = end_marker"
    by (metis length_markers(2) add.commute append_eq_conv_conj drop_drop prefix_def)
  moreover have "drop (14 + k) d = take 14 (drop (14 + k) (drop i raw))"
    unfolding d by (simp add: drop_take)
  ultimately have e: "suffix end_marker d"
    by (metis suffix_drop)
  have left: "\<not> prefix begin_marker (drop j raw)" if "j < length ?pre" for j
    using that find_sub_first [OF i, of j] by simp
  have short: "\<not> prefix end_marker (drop j d)" if j: "14 \<le> j \<and> j < length d - 14" for j
  proof
    assume "prefix end_marker (drop j d)"
    moreover have "prefix (drop j d) (drop j (drop i raw))"
      unfolding d by (simp add: drop_take take_is_prefix)
    ultimately have "prefix end_marker (drop (j - 14) (drop (i + 14) raw))"
      using j by (metis prefix_order.trans add.commute drop_drop le_add_diff_inverse2)
    moreover have "j - 14 < k"
      using j len by arith
    ultimately show False
      using find_sub_first [OF k] by blast
  qed
  from raw b e left short show ?thesis
    by blast
qed

lemma document_span_None:
  assumes "document_span raw = None"
    and "prefix begin_marker (drop i raw)" and "i + 14 \<le> j"
  shows "\<not> prefix end_marker (drop j raw)"
proof (cases "find_sub begin_marker raw")
  case None
  then show ?thesis
    using find_sub_None assms(2) by blast
next
  case (Some i0)
  with assms(1) have none: "find_sub end_marker (drop (i0 + 14) raw) = None"
    by (simp add: document_span_def split: option.splits)
  have "i0 \<le> i"
    using find_sub_first [OF Some, of i] assms(2) by (meson not_le)
  with assms(3) have "drop j raw = drop (j - (i0 + 14)) (drop (i0 + 14) raw)"
    by simp
  then show ?thesis
    using find_sub_None [OF none] by simp
qed

subsection \<open>Fences and blanks\<close>

lemma prefix_before_separator:
  assumes "c \<notin> set old"
  shows "prefix old (xs @ c # ys) \<longleftrightarrow> prefix old xs"
proof
  assume "prefix old (xs @ c # ys)"
  then have "prefix old xs \<or> (\<exists>us. old = xs @ us \<and> prefix us (c # ys))"
    by (simp add: prefix_append)
  then show "prefix old xs"
  proof
    assume "prefix old xs"
    then show ?thesis .
  next
    assume "\<exists>us. old = xs @ us \<and> prefix us (c # ys)"
    then obtain us where us: "old = xs @ us" "prefix us (c # ys)"
      by blast
    show ?thesis
    proof (cases us)
      case Nil
      with us show ?thesis by simp
    next
      case (Cons u us')
      with us have "c \<in> set old" by simp
      with assms show ?thesis by simp
    qed
  qed
next
  assume "prefix old xs"
  then show "prefix old (xs @ c # ys)"
    by (simp add: prefix_prefix)
qed

lemma replace_all_separator:
  assumes "c \<notin> set old" and "old \<noteq> []"
  shows "replace_all old new (xs @ c # ys)
           = replace_all old new xs @ c # replace_all old new ys"
proof (induction xs rule: length_induct)
  case (1 xs)
  show ?case
  proof (cases xs)
    case Nil
    have "\<not> prefix old (c # ys)"
      using assms by (cases old) auto
    with Nil show ?thesis by simp
  next
    case (Cons x xs')
    have sep: "prefix old ((x # xs') @ c # ys) \<longleftrightarrow> prefix old (x # xs')"
      by (rule prefix_before_separator [OF assms(1)])
    show ?thesis
    proof (cases "prefix old (x # xs')")
      case True
      then have "length old \<le> Suc (length xs')"
        using prefix_length_le by fastforce
      then have le: "length old - 1 \<le> length xs'"
        by simp
      then have "drop (length old - 1) (xs' @ c # ys) = drop (length old - 1) xs' @ c # ys"
        by simp
      moreover have "replace_all old new (drop (length old - 1) xs' @ c # ys)
          = replace_all old new (drop (length old - 1) xs') @ c # replace_all old new ys"
        using "1.IH" Cons by simp
      ultimately show ?thesis
        using True sep Cons by simp
    next
      case False
      moreover have "replace_all old new (xs' @ c # ys)
          = replace_all old new xs' @ c # replace_all old new ys"
        using "1.IH" Cons by simp
      ultimately show ?thesis
        using sep Cons by simp
    qed
  qed
qed

lemma replace_all_absent:
  assumes "\<And>j. \<not> prefix old (drop j s)"
  shows "replace_all old new s = s"
  using assms
proof (induction s)
  case Nil
  then show ?case by simp
next
  case (Cons c cs)
  from Cons.prems [of 0] have "\<not> prefix old (c # cs)" by simp
  moreover have "\<not> prefix old (drop j cs)" for j
    using Cons.prems [of "Suc j"] by simp
  ultimately show ?case
    using Cons.IH by simp
qed

lemma replace_all_skip:
  assumes "\<not> prefix old (c # cs)"
  shows "replace_all old new (c # cs) = c # replace_all old new cs"
  using assms by (subst replace_all.simps) (simp only: if_False)

lemma replace_all_match:
  assumes "prefix old (c # cs)"
  shows "replace_all old new (c # cs) = new @ replace_all old new (drop (length old - 1) cs)"
  using assms by (subst replace_all.simps) (simp only: if_True)

lemma fence_prefix_iff:
  "prefix ''```'' (c # cs) \<longleftrightarrow> c = CHR 0x60 \<and> prefix [CHR 0x60, CHR 0x60] cs"
  by auto

lemma fence2_prefix_iff:
  "prefix [CHR 0x60, CHR 0x60] (c # cs) \<longleftrightarrow> c = CHR 0x60 \<and> prefix [CHR 0x60] cs"
  by auto

lemma fence1_prefix_iff:
  "prefix [CHR 0x60] (c # cs) \<longleftrightarrow> c = CHR 0x60"
  by auto

lemma prefix_shorter: "prefix (x # y # zs) cs \<Longrightarrow> prefix [x] cs"
  by (cases cs) simp_all

lemma rm_fence_head1:
  assumes "prefix [CHR 0x60] (replace_all ''```'' [] s)"
  shows "prefix [CHR 0x60] s"
proof (cases s)
  case Nil
  with assms show ?thesis by simp
next
  case (Cons c cs)
  show ?thesis
  proof (cases "prefix ''```'' (c # cs)")
    case True
    then show ?thesis
      unfolding Cons fence_prefix_iff fence1_prefix_iff by (rule conjunct1)
  next
    case False
    from assms have "prefix [CHR 0x60] (c # replace_all ''```'' [] cs)"
      unfolding Cons replace_all_skip [OF False] .
    then show ?thesis
      unfolding Cons fence1_prefix_iff .
  qed
qed

lemma rm_fence_head2:
  assumes "prefix [CHR 0x60, CHR 0x60] (replace_all ''```'' [] s)"
  shows "prefix [CHR 0x60, CHR 0x60] s"
proof (cases s)
  case Nil
  with assms show ?thesis by simp
next
  case (Cons c cs)
  show ?thesis
  proof (cases "prefix ''```'' (c # cs)")
    case True
    then have c: "c = CHR 0x60" and p: "prefix [CHR 0x60, CHR 0x60] cs"
      unfolding fence_prefix_iff by (rule conjunct1, rule conjunct2)
    from p have "prefix [CHR 0x60] cs"
      by (rule prefix_shorter)
    with c have "c = CHR 0x60 \<and> prefix [CHR 0x60] cs"
      by (rule conjI)
    then show ?thesis
      unfolding Cons fence2_prefix_iff .
  next
    case False
    from assms have "prefix [CHR 0x60, CHR 0x60] (c # replace_all ''```'' [] cs)"
      unfolding Cons replace_all_skip [OF False] .
    then have c: "c = CHR 0x60" and p: "prefix [CHR 0x60] (replace_all ''```'' [] cs)"
      unfolding fence2_prefix_iff by (rule conjunct1, rule conjunct2)
    from p have "prefix [CHR 0x60] cs"
      by (rule rm_fence_head1)
    with c have "c = CHR 0x60 \<and> prefix [CHR 0x60] cs"
      by (rule conjI)
    then show ?thesis
      unfolding Cons fence2_prefix_iff .
  qed
qed

lemma rm_fence_none: "\<not> prefix ''```'' (drop j (replace_all ''```'' [] s))"
proof (induction s arbitrary: j rule: length_induct)
  case (1 s)
  show ?case
  proof (cases s)
    case Nil
    then show ?thesis by simp
  next
    case (Cons c cs)
    show ?thesis
    proof (cases "prefix ''```'' (c # cs)")
      case True
      have "length (drop (length ''```'' - 1) cs) < length s"
        unfolding Cons by simp
      with "1.IH"
      have "\<not> prefix ''```'' (drop j (replace_all ''```'' [] (drop (length ''```'' - 1) cs)))"
        by blast
      then show ?thesis
        unfolding Cons replace_all_match [OF True] append_Nil .
    next
      case False
      show ?thesis
      proof (cases j)
        case 0
        show ?thesis
        proof
          assume "prefix ''```'' (drop j (replace_all ''```'' [] s))"
          then have "prefix ''```'' (c # replace_all ''```'' [] cs)"
            unfolding Cons replace_all_skip [OF False] 0 drop_0 .
          then have c: "c = CHR 0x60"
            and p: "prefix [CHR 0x60, CHR 0x60] (replace_all ''```'' [] cs)"
            unfolding fence_prefix_iff by (rule conjunct1, rule conjunct2)
          from p have "prefix [CHR 0x60, CHR 0x60] cs"
            by (rule rm_fence_head2)
          with c have "c = CHR 0x60 \<and> prefix [CHR 0x60, CHR 0x60] cs"
            by (rule conjI)
          then have "prefix ''```'' (c # cs)"
            unfolding fence_prefix_iff .
          with False show False ..
        qed
      next
        case (Suc j')
        have "length cs < length s"
          unfolding Cons by simp
        with "1.IH" have "\<not> prefix ''```'' (drop j' (replace_all ''```'' [] cs))"
          by blast
        then show ?thesis
          unfolding Cons replace_all_skip [OF False] Suc drop_Suc_Cons .
      qed
    qed
  qed
qed

lemma replace_all_keeps_head:
  assumes "old \<noteq> []" and "hd old \<notin> set xs"
  shows "replace_all old new (xs @ ys) = xs @ replace_all old new ys"
  using assms(2)
proof (induction xs)
  case Nil
  then show ?case by simp
next
  case (Cons x xs)
  have "\<not> prefix old (x # (xs @ ys))"
    using assms(1) Cons.prems by (cases old) auto
  then have "replace_all old new (x # (xs @ ys)) = x # replace_all old new (xs @ ys)"
    by (rule replace_all_skip)
  with Cons show ?case by simp
qed


lemma replace_all_between:
  assumes "old \<noteq> []" and "hd old \<notin> set xs" and "hd old \<notin> set zs" and "c \<notin> set old"
  shows "replace_all old new (xs @ ys @ c # zs) = xs @ replace_all old new ys @ c # zs"
proof -
  have "replace_all old new zs = zs"
    using replace_all_keeps_head [OF assms(1,3), of new "[]"] by simp
  then have "replace_all old new (ys @ c # zs) = replace_all old new ys @ c # zs"
    using replace_all_separator [OF assms(4,1)] by simp
  then show ?thesis
    using replace_all_keeps_head [OF assms(1,2)] by simp
qed


lemma remove_fences_between:
  "remove_fences (begin_marker @ body @ end_marker)
     = begin_marker @ remove_fences body @ end_marker"
proof -
  have e: "end_marker = CHR 0x5C # ''end{document}''"
    by (simp add: end_marker_def)
  have 1: "replace_all ''```latex'' [] (begin_marker @ ys @ CHR 0x5C # ''end{document}'')
             = begin_marker @ replace_all ''```latex'' [] ys @ CHR 0x5C # ''end{document}''" for ys
    by (rule replace_all_between) (simp_all add: begin_marker_def)
  have 2: "replace_all ''```'' [] (begin_marker @ ys @ CHR 0x5C # ''end{document}'')
             = begin_marker @ replace_all ''```'' [] ys @ CHR 0x5C # ''end{document}''" for ys
    by (rule replace_all_between) (simp_all add: begin_marker_def)
  show ?thesis
    unfolding remove_fences_def py_replace_def e by (simp add: 1 2)
qed


lemma fences_gone: "\<not> prefix ''```'' (drop j (remove_fences s))"
  by (simp add: remove_fences_def py_replace_def rm_fence_none)


lemma remove_fences_absent:
  assumes "\<And>j. \<not> prefix ''```'' (drop j s)"
  shows "remove_fences s = s"
proof -
  have "\<not> prefix ''```latex'' (drop j s)" for j
  proof
    assume "prefix ''```latex'' (drop j s)"
    moreover have "prefix ''```'' ''```latex''"
      by simp
    ultimately have "prefix ''```'' (drop j s)"
      by (rule prefix_order.trans [rotated])
    with assms show False by blast
  qed
  then have "replace_all ''```latex'' [] s = s"
    by (rule replace_all_absent)
  moreover have "replace_all ''```'' [] s = s"
    using assms by (rule replace_all_absent)
  ultimately show ?thesis
    by (simp add: remove_fences_def py_replace_def)
qed


lemma remove_fences_twice: "remove_fences (remove_fences s) = remove_fences s"
  by (rule remove_fences_absent) (rule fences_gone)


lemma lstrip_with_keeps:
  assumes "\<And>w. w \<in> set ws \<Longrightarrow> w \<noteq> [] \<Longrightarrow> hd w \<noteq> c"
  shows "lstrip_with ws (c # cs) = c # cs"
proof -
  have "find (\<lambda>w. w \<noteq> [] \<and> prefix w (c # cs)) ws = None"
    unfolding find_None_iff
  proof (intro notI, elim exE conjE)
    fix w assume w: "w \<in> set ws" "w \<noteq> []" "prefix w (c # cs)"
    have "hd w = c"
      using w(2,3) by (cases w) simp_all
    with assms [OF w(1,2)] show False
      by simp
  qed
  then show ?thesis by simp
qed


lemma py_strip_document:
  "py_strip (begin_marker @ body @ end_marker) = begin_marker @ body @ end_marker"
proof -
  have r: "rev (begin_marker @ body @ end_marker)
             = CHR ''}'' # rev (begin_marker @ body @ CHR 0x5C # ''end{document'')"
    by (simp add: end_marker_def)
  have "lstrip_with (map rev unicode_spaces) (rev (begin_marker @ body @ end_marker))
          = rev (begin_marker @ body @ end_marker)"
    unfolding r by (rule lstrip_with_keeps) (auto simp: unicode_spaces_def)
  moreover have "lstrip_with unicode_spaces (begin_marker @ body @ end_marker)
          = begin_marker @ body @ end_marker"
    unfolding begin_marker_def append_Cons
    by (rule lstrip_with_keeps) (auto simp: unicode_spaces_def)
  ultimately show ?thesis
    by (simp add: py_strip_def)
qed


lemma document_span_document:
  assumes "find_sub end_marker (body @ end_marker) = Some (length body)"
  shows "document_span (begin_marker @ body @ end_marker) = Some (begin_marker @ body @ end_marker)"
proof -
  have "find_sub begin_marker (begin_marker @ body @ end_marker) = Some 0"
    by (rule find_sub_prefix) (simp_all add: begin_marker_def)
  with assms show ?thesis
    by (simp add: document_span_def)
qed


lemma document_span_parts:
  assumes "document_span raw = Some d"
  obtains body where "d = begin_marker @ body @ end_marker"
    and "find_sub end_marker (body @ end_marker) = Some (length body)"
proof -
  from assms obtain i k where i: "find_sub begin_marker raw = Some i"
    and k: "find_sub end_marker (drop (i + 14) raw) = Some k"
    and d: "d = take (28 + k) (drop i raw)"
    and len: "length d = 28 + k"
    by (rule document_span_Some)
  from document_span_shape [OF assms] have b: "prefix begin_marker d" and e: "suffix end_marker d"
    by blast+
  from b obtain r where r: "d = begin_marker @ r"
    by (auto simp: prefix_def)
  with len have lr: "length r = 14 + k"
    by simp
  from e obtain q where q: "d = q @ end_marker"
    by (auto simp: suffix_def)
  with len have "length q = 14 + k"
    by simp
  with q have "drop (14 + k) d = end_marker"
    by simp
  moreover have "drop (14 + k) d = drop k r"
    unfolding r by simp
  ultimately have "drop k r = end_marker"
    by simp
  then have body: "r = take k r @ end_marker"
    by (metis append_take_drop_id)
  have lb: "length (take k r) = k"
    using lr by simp
  have "r = drop 14 d"
    using r by simp
  also have "\<dots> = take (k + length end_marker) (drop (i + 14) raw)"
    unfolding d by (simp add: drop_take add.commute)
  finally have "find_sub end_marker r = Some k"
    using find_sub_take [OF k] by simp
  with body lb have "find_sub end_marker (take k r @ end_marker) = Some (length (take k r))"
    by simp
  moreover from r body have "d = begin_marker @ take k r @ end_marker"
    by simp
  ultimately show ?thesis
    using that by blast
qed

lemma clean_text_document:
  assumes "document_span raw = Some (begin_marker @ body @ end_marker)"
  shows "clean_text raw = begin_marker @ remove_fences body @ end_marker"
  using assms by (simp add: clean_text_def remove_fences_between py_strip_document)

lemma clean_text_fixed:
  assumes "find_sub end_marker (m @ end_marker) = Some (length m)"
    and "remove_fences m = m"
  shows "clean_text (begin_marker @ m @ end_marker) = begin_marker @ m @ end_marker"
  using document_span_document [OF assms(1)] assms(2)
  by (simp add: clean_text_def remove_fences_between py_strip_document)

lemma sublist_prefix_drop: "sublist pat t \<longleftrightarrow> (\<exists>j. prefix pat (drop j t))"
proof
  assume "sublist pat t"
  then obtain ps ss where "t = ps @ pat @ ss" by (auto simp: sublist_def)
  then have "drop (length ps) t = pat @ ss" by simp
  then have "prefix pat (drop (length ps) t)" by simp
  then show "\<exists>j. prefix pat (drop j t)" ..
next
  assume "\<exists>j. prefix pat (drop j t)"
  then obtain j zs where "drop j t = pat @ zs" by (auto simp: prefix_def)
  then have "t = take j t @ pat @ zs" by (metis append_take_drop_id)
  then show "sublist pat t" unfolding sublist_def by blast
qed

lemma lstrip_with_suffix: "suffix (lstrip_with ws s) s"
proof (induction ws s rule: lstrip_with.induct)
  case (1 ws)
  show ?case by simp
next
  case (2 ws c cs)
  show ?case
  proof (cases "find (\<lambda>w. w \<noteq> [] \<and> prefix w (c # cs)) ws")
    case None
    then show ?thesis by simp
  next
    case (Some w)
    have "suffix (lstrip_with ws (drop (length w - 1) cs)) (drop (length w - 1) cs)"
      using Some by (rule "2.IH")
    moreover have "suffix (drop (length w - 1) cs) (c # cs)"
      by (rule suffix_order.trans [OF suffix_drop]) (rule suffix_ConsI, rule suffix_order.refl)
    ultimately have "suffix (lstrip_with ws (drop (length w - 1) cs)) (c # cs)"
      by (rule suffix_order.trans)
    then show ?thesis using Some by simp
  qed
qed

lemma py_strip_sublist: "sublist (py_strip s) s"
proof -
  define t where "t = rev (lstrip_with (map rev unicode_spaces) (rev s))"
  have "suffix (lstrip_with (map rev unicode_spaces) (rev s)) (rev s)"
    by (rule lstrip_with_suffix)
  then have "prefix t s"
    unfolding t_def by (simp add: suffix_to_prefix)
  then have 1: "sublist t s" by (rule prefix_imp_sublist)
  have "suffix (lstrip_with unicode_spaces t) t" by (rule lstrip_with_suffix)
  then have "sublist (lstrip_with unicode_spaces t) t" by (rule suffix_imp_sublist)
  from this 1 have "sublist (lstrip_with unicode_spaces t) s" by (rule sublist_order.order.trans)
  then show ?thesis by (simp add: py_strip_def t_def)
qed

lemma clean_text_no_fence: "\<not> sublist ''```'' (clean_text raw)"
proof
  define x where "x = (case document_span raw of Some m \<Rightarrow> m | None \<Rightarrow> raw)"
  assume "sublist ''```'' (clean_text raw)"
  then have "sublist ''```'' (py_strip (remove_fences x))"
    by (simp add: clean_text_def x_def)
  from this py_strip_sublist have "sublist ''```'' (remove_fences x)"
    by (rule sublist_order.order.trans)
  then obtain j where "prefix ''```'' (drop j (remove_fences x))"
    unfolding sublist_prefix_drop ..
  with fences_gone show False by blast
qed

lemma remove_fences_unfold:
  "remove_fences s = replace_all ''```'' [] (replace_all ''```latex'' [] s)"
  by (simp add: remove_fences_def py_replace_def)

lemma replace_all_at_match:
  assumes "old \<noteq> []"
  shows "replace_all old new (old @ ys) = new @ replace_all old new ys"
proof -
  obtain c cs where o: "old = c # cs" using assms by (cases old) auto
  have "prefix old (c # (cs @ ys))" by (simp add: o)
  then have "replace_all old new (c # (cs @ ys))
      = new @ replace_all old new (drop (length old - 1) (cs @ ys))"
    by (rule replace_all_match)
  then show ?thesis by (simp add: o)
qed

lemma replace_all_skip_many:
  assumes "\<And>j. j < length us \<Longrightarrow> \<not> prefix old (drop j (us @ ys))"
  shows "replace_all old new (us @ ys) = us @ replace_all old new ys"
  using assms
proof (induction us)
  case Nil
  then show ?case by simp
next
  case (Cons u us)
  have "\<not> prefix old (drop 0 ((u # us) @ ys))"
    by (rule Cons.prems) simp
  then have "\<not> prefix old (u # (us @ ys))" by simp
  then have 1: "replace_all old new (u # (us @ ys)) = u # replace_all old new (us @ ys)"
    by (rule replace_all_skip)
  have "\<not> prefix old (drop j (us @ ys))" if "j < length us" for j
    using Cons.prems [of "Suc j"] that by simp
  then have "replace_all old new (us @ ys) = us @ replace_all old new ys"
    by (rule Cons.IH)
  with 1 show ?case by simp
qed

lemma remove_fences_latex_fence:
  assumes "CHR 0x60 \<notin> set xs"
  shows "remove_fences (xs @ ''```latex'' @ ys) = xs @ remove_fences ys"
proof -
  define f8 where "f8 = ''```latex''"
  define f3 where "f3 = ''```''"
  have n8: "f8 \<noteq> []" and n3: "f3 \<noteq> []" by (simp_all add: f8_def f3_def)
  have h8: "hd f8 \<notin> set xs" and h3: "hd f3 \<notin> set xs"
    using assms by (simp_all add: f8_def f3_def)
  have "replace_all f8 [] (xs @ f8 @ ys) = xs @ replace_all f8 [] (f8 @ ys)"
    by (rule replace_all_keeps_head [OF n8 h8])
  also have "replace_all f8 [] (f8 @ ys) = [] @ replace_all f8 [] ys"
    by (rule replace_all_at_match [OF n8])
  finally have 1: "replace_all f8 [] (xs @ f8 @ ys) = xs @ replace_all f8 [] ys" by simp
  have 2: "replace_all f3 [] (xs @ replace_all f8 [] ys) = xs @ replace_all f3 [] (replace_all f8 [] ys)"
    by (rule replace_all_keeps_head [OF n3 h3])
  have "replace_all f3 [] (replace_all f8 [] (xs @ f8 @ ys))
      = xs @ replace_all f3 [] (replace_all f8 [] ys)"
    unfolding 1 by (rule 2)
  then show ?thesis
    unfolding remove_fences_unfold f8_def f3_def .
qed

lemma remove_fences_plain_fence:
  assumes "CHR 0x60 \<notin> set xs" and "\<not> prefix [CHR 0x60] ys" and "\<not> prefix ''latex'' ys"
  shows "remove_fences (xs @ ''```'' @ ys) = xs @ remove_fences ys"
proof -
  define f8 where "f8 = ''```latex''"
  define f3 where "f3 = ''```''"
  have n8: "f8 \<noteq> []" and n3: "f3 \<noteq> []" by (simp_all add: f8_def f3_def)
  have h8: "hd f8 \<notin> set xs" and h3: "hd f3 \<notin> set xs"
    using assms(1) by (simp_all add: f8_def f3_def)
  have skip: "\<not> prefix f8 (drop j (f3 @ ys))" if "j < length f3" for j
  proof -
    from that have "j = 0 \<or> j = 1 \<or> j = 2" by (auto simp: f3_def)
    then show ?thesis
    proof (elim disjE)
      assume "j = 0"
      then show ?thesis using assms(3) by (simp add: f8_def f3_def)
    next
      assume "j = 1"
      then show ?thesis using assms(2) by (auto simp: f8_def f3_def dest: prefix_shorter)
    next
      assume "j = 2"
      then show ?thesis using assms(2) by (auto simp: f8_def f3_def dest: prefix_shorter)
    qed
  qed
  have "replace_all f8 [] (xs @ f3 @ ys) = xs @ replace_all f8 [] (f3 @ ys)"
    by (rule replace_all_keeps_head [OF n8 h8])
  also have "replace_all f8 [] (f3 @ ys) = f3 @ replace_all f8 [] ys"
    using skip by (rule replace_all_skip_many)
  finally have 1: "replace_all f8 [] (xs @ f3 @ ys) = xs @ f3 @ replace_all f8 [] ys" .
  have "replace_all f3 [] (xs @ f3 @ replace_all f8 [] ys)
      = xs @ replace_all f3 [] (f3 @ replace_all f8 [] ys)"
    by (rule replace_all_keeps_head [OF n3 h3])
  also have "replace_all f3 [] (f3 @ replace_all f8 [] ys) = [] @ replace_all f3 [] (replace_all f8 [] ys)"
    by (rule replace_all_at_match [OF n3])
  finally have 2: "replace_all f3 [] (xs @ f3 @ replace_all f8 [] ys)
      = xs @ replace_all f3 [] (replace_all f8 [] ys)" by simp
  have "replace_all f3 [] (replace_all f8 [] (xs @ f3 @ ys))
      = xs @ replace_all f3 [] (replace_all f8 [] ys)"
    unfolding 1 by (rule 2)
  then show ?thesis
    unfolding remove_fences_unfold f8_def f3_def .
qed

lemma fenced_reply_span:
  "document_span fenced_reply = Some (begin_marker @ ''{article} ```latex Hello ``` '' @ end_marker)"
  by code_simp

lemma fenced_reply_clean:
  "clean_text fenced_reply = begin_marker @ ''{article}  Hello  '' @ end_marker"
  by code_simp

lemma no_document_clean:
  "document_span ''```latex no document here ``` '' = None
   \<and> clean_text ''```latex no document here ``` '' = ''no document here''"
  by code_simp

lemma lstrip_with_no_prefix:
  "w \<in> set ws \<Longrightarrow> w \<noteq> [] \<Longrightarrow> \<not> prefix w (lstrip_with ws s)"
proof (induction ws s rule: lstrip_with.induct)
  case (1 ws)
  then show ?case by simp
next
  case (2 ws c cs)
  show ?case
  proof (cases "find (\<lambda>w. w \<noteq> [] \<and> prefix w (c # cs)) ws")
    case None
    then have "\<not> (\<exists>x. x \<in> set ws \<and> x \<noteq> [] \<and> prefix x (c # cs))"
      by (simp add: find_None_iff)
    then have "\<not> prefix w (c # cs)" using "2.prems" by blast
    then show ?thesis using None by simp
  next
    case (Some v)
    have "\<not> prefix w (lstrip_with ws (drop (length v - 1) cs))"
      using Some "2.prems" by (rule "2.IH")
    then show ?thesis using Some by simp
  qed
qed

lemma py_strip_no_blank:
  assumes "w \<in> set unicode_spaces"
  shows "\<not> prefix w (py_strip s)" and "\<not> suffix w (py_strip s)"
proof -
  have "[] \<notin> set unicode_spaces"
    by (simp add: unicode_spaces_def)
  with assms have n: "w \<noteq> []" by blast
  define t where "t = rev (lstrip_with (map rev unicode_spaces) (rev s))"
  have p: "py_strip s = lstrip_with unicode_spaces t"
    by (simp add: py_strip_def t_def)
  show "\<not> prefix w (py_strip s)"
    unfolding p using assms n by (rule lstrip_with_no_prefix)
  have "rev w \<in> set (map rev unicode_spaces)" using assms by simp
  moreover have "rev w \<noteq> []" using n by simp
  ultimately have "\<not> prefix (rev w) (lstrip_with (map rev unicode_spaces) (rev s))"
    by (rule lstrip_with_no_prefix)
  then have nt: "\<not> suffix w t"
    by (simp add: t_def suffix_to_prefix)
  show "\<not> suffix w (py_strip s)"
  proof
    assume "suffix w (py_strip s)"
    moreover have "suffix (py_strip s) t" unfolding p by (rule lstrip_with_suffix)
    ultimately have "suffix w t" by (rule suffix_order.trans)
    with nt show False ..
  qed
qed

lemma clean_text_no_blank:
  assumes "w \<in> set unicode_spaces"
  shows "\<not> prefix w (clean_text raw) \<and> \<not> suffix w (clean_text raw)"
  unfolding clean_text_def using assms by (intro conjI py_strip_no_blank)

lemma fence_in_latex_fence: "sublist ''```'' ''```latex''"
proof -
  have "''```latex'' = [] @ ''```'' @ ''latex''" by simp
  then show ?thesis unfolding sublist_def by blast
qed

lemma clean_text_no_latex_fence: "\<not> sublist ''```latex'' (clean_text raw)"
proof
  assume "sublist ''```latex'' (clean_text raw)"
  with fence_in_latex_fence have "sublist ''```'' (clean_text raw)"
    by (rule sublist_order.order.trans)
  with clean_text_no_fence show False ..
qed

lemma remove_fences_no_fence:
  assumes "\<not> sublist ''```'' m"
  shows "remove_fences m = m"
proof (rule remove_fences_absent)
  fix j
  show "\<not> prefix ''```'' (drop j m)"
    using assms unfolding sublist_prefix_drop by blast
qed

subsection \<open>What the extraction returns\<close>

text \<open>
  C7 (as the program has it). The search is for the shortest span: from the first begin
  marker to the first end marker after it, across lines. When there is such a span
  \<open>d\<close>, the reply is \<open>pre @ d @ post\<close>, only \<open>d\<close> is kept, the fence markers are taken out
  of it, and blanks at both ends are stripped: the result is the begin marker, the text
  between the markers without its fence markers, and the end marker. When there is no
  begin marker with an end marker after it, the whole reply is returned with the fence
  markers taken out and the blanks at both ends stripped. Either way there is a result:
  nothing is raised. The result holds no fence marker and neither begins nor ends with a
  blank. Taking out the fences leaves a text without fence markers as it is, and takes
  out a fence marker that no other backtick touches, together with the word \<^verbatim>\<open>latex\<close>
  when that follows it. From a reply with fences around and inside the document, and from
  a reply with fences and no document, the texts without the fences come out.
\<close>

theorem extraction_shortest_span:
  "(\<forall>d. document_span raw = Some d \<longrightarrow>
        clean_text raw = py_strip (remove_fences d)
      \<and> (\<exists>pre post. raw = pre @ d @ post
           \<and> prefix begin_marker d \<and> suffix end_marker d
           \<and> (\<forall>j<length pre. \<not> prefix begin_marker (drop j raw))
           \<and> (\<forall>j. 14 \<le> j \<and> j < length d - 14 \<longrightarrow> \<not> prefix end_marker (drop j d))))
 \<and> (document_span raw = None \<longrightarrow>
        clean_text raw = py_strip (remove_fences raw)
      \<and> (\<forall>i j. prefix begin_marker (drop i raw) \<and> i + 14 \<le> j
             \<longrightarrow> \<not> prefix end_marker (drop j raw)))
 \<and> (\<forall>d. document_span raw = Some d \<longrightarrow>
        (\<exists>body. d = begin_marker @ body @ end_marker
           \<and> clean_text raw = begin_marker @ remove_fences body @ end_marker))
 \<and> \<not> sublist ''```'' (clean_text raw)
 \<and> \<not> sublist ''```latex'' (clean_text raw)
 \<and> (\<forall>w\<in>set unicode_spaces. \<not> prefix w (clean_text raw) \<and> \<not> suffix w (clean_text raw))
 \<and> (\<forall>m. \<not> sublist ''```'' m \<longrightarrow> remove_fences m = m)
 \<and> (\<forall>xs ys. CHR 0x60 \<notin> set xs
        \<longrightarrow> remove_fences (xs @ ''```latex'' @ ys) = xs @ remove_fences ys)
 \<and> (\<forall>xs ys. CHR 0x60 \<notin> set xs \<and> \<not> prefix [CHR 0x60] ys \<and> \<not> prefix ''latex'' ys
        \<longrightarrow> remove_fences (xs @ ''```'' @ ys) = xs @ remove_fences ys)
 \<and> clean_text fenced_reply = begin_marker @ ''{article}  Hello  '' @ end_marker
 \<and> clean_text ''```latex no document here ``` '' = ''no document here''"
proof (intro conjI allI impI ballI)
  fix d assume "document_span raw = Some d"
  then show "clean_text raw = py_strip (remove_fences d)"
    by (simp add: clean_text_def)
next
  fix d assume "document_span raw = Some d"
  then show "\<exists>pre post. raw = pre @ d @ post
           \<and> prefix begin_marker d \<and> suffix end_marker d
           \<and> (\<forall>j<length pre. \<not> prefix begin_marker (drop j raw))
           \<and> (\<forall>j. 14 \<le> j \<and> j < length d - 14 \<longrightarrow> \<not> prefix end_marker (drop j d))"
    by (rule document_span_shape)
next
  assume "document_span raw = None"
  then show "clean_text raw = py_strip (remove_fences raw)"
    by (simp add: clean_text_def)
next
  fix i j
  assume "document_span raw = None" and "prefix begin_marker (drop i raw) \<and> i + 14 \<le> j"
  then show "\<not> prefix end_marker (drop j raw)"
    using document_span_None by blast
next
  fix d assume d: "document_span raw = Some d"
  then obtain body where b: "d = begin_marker @ body @ end_marker"
    by (rule document_span_parts)
  from d have "clean_text raw = begin_marker @ remove_fences body @ end_marker"
    unfolding b by (rule clean_text_document)
  with b show "\<exists>body. d = begin_marker @ body @ end_marker
           \<and> clean_text raw = begin_marker @ remove_fences body @ end_marker"
    by blast
next
  show "\<not> sublist ''```'' (clean_text raw)" by (rule clean_text_no_fence)
next
  show "\<not> sublist ''```latex'' (clean_text raw)" by (rule clean_text_no_latex_fence)
next
  fix w assume "w \<in> set unicode_spaces"
  then show "\<not> prefix w (clean_text raw)" by (rule clean_text_no_blank [THEN conjunct1])
next
  fix w assume "w \<in> set unicode_spaces"
  then show "\<not> suffix w (clean_text raw)" by (rule clean_text_no_blank [THEN conjunct2])
next
  fix m assume "\<not> sublist ''```'' m"
  then show "remove_fences m = m" by (rule remove_fences_no_fence)
next
  fix xs ys assume "CHR 0x60 \<notin> set xs"
  then show "remove_fences (xs @ ''```latex'' @ ys) = xs @ remove_fences ys"
    by (rule remove_fences_latex_fence)
next
  fix xs ys assume a: "CHR 0x60 \<notin> set xs \<and> \<not> prefix [CHR 0x60] ys \<and> \<not> prefix ''latex'' ys"
  show "remove_fences (xs @ ''```'' @ ys) = xs @ remove_fences ys"
    using a by (intro remove_fences_plain_fence) (elim conjE, assumption)+
next
  show "clean_text fenced_reply = begin_marker @ ''{article}  Hello  '' @ end_marker"
    by (rule fenced_reply_clean)
next
  show "clean_text ''```latex no document here ``` '' = ''no document here''"
    using no_document_clean by (rule conjunct2)
qed

theorem extraction_shortest_span_witness:
  "document_span fenced_reply
     = Some (begin_marker @ ''{article} ```latex Hello ``` '' @ end_marker)
   \<and> clean_text fenced_reply
       = py_strip (remove_fences (begin_marker @ ''{article} ```latex Hello ``` '' @ end_marker))
   \<and> clean_text fenced_reply = begin_marker @ ''{article}  Hello  '' @ end_marker
   \<and> document_span ''```latex no document here ``` '' = None
   \<and> clean_text ''```latex no document here ``` ''
       = py_strip (remove_fences ''```latex no document here ``` '')
   \<and> clean_text ''```latex no document here ``` '' = ''no document here''"
proof -
  let ?d = "begin_marker @ ''{article} ```latex Hello ``` '' @ end_marker"
  let ?r = "''```latex no document here ``` ''"
  have span: "document_span fenced_reply = Some ?d"
    by (rule fenced_reply_span)
  have none: "document_span ?r = None"
    using no_document_clean by (rule conjunct1)
  note fact = extraction_shortest_span [of fenced_reply]
  from fact
  have "\<forall>d. document_span fenced_reply = Some d \<longrightarrow>
          clean_text fenced_reply = py_strip (remove_fences d)
        \<and> (\<exists>pre post. fenced_reply = pre @ d @ post
             \<and> prefix begin_marker d \<and> suffix end_marker d
             \<and> (\<forall>j<length pre. \<not> prefix begin_marker (drop j fenced_reply))
             \<and> (\<forall>j. 14 \<le> j \<and> j < length d - 14 \<longrightarrow> \<not> prefix end_marker (drop j d)))"
    by (rule conjunct1)
  then have "document_span fenced_reply = Some ?d \<longrightarrow>
          clean_text fenced_reply = py_strip (remove_fences ?d)
        \<and> (\<exists>pre post. fenced_reply = pre @ ?d @ post
             \<and> prefix begin_marker ?d \<and> suffix end_marker ?d
             \<and> (\<forall>j<length pre. \<not> prefix begin_marker (drop j fenced_reply))
             \<and> (\<forall>j. 14 \<le> j \<and> j < length ?d - 14 \<longrightarrow> \<not> prefix end_marker (drop j ?d)))"
    by (rule spec)
  from this span have a: "clean_text fenced_reply = py_strip (remove_fences ?d)"
    by (rule mp [THEN conjunct1])
  from fact have c: "clean_text fenced_reply = begin_marker @ ''{article}  Hello  '' @ end_marker"
    by (elim conjE)
  note fact2 = extraction_shortest_span [of ?r]
  from fact2
  have "document_span ?r = None \<longrightarrow>
        clean_text ?r = py_strip (remove_fences ?r)
      \<and> (\<forall>i j. prefix begin_marker (drop i ?r) \<and> i + 14 \<le> j
             \<longrightarrow> \<not> prefix end_marker (drop j ?r))"
    by (rule conjunct2 [THEN conjunct1])
  from this none have b: "clean_text ?r = py_strip (remove_fences ?r)"
    by (rule mp [THEN conjunct1])
  from fact2 have e: "clean_text ?r = ''no document here''"
    by (elim conjE)
  from span a c none b e show ?thesis
    by (intro conjI)
qed

text \<open>
  C7 as the specification words it fails. In a reply with two end markers a greedy span
  would run to the last one; the program stops at the first. And a reply without markers
  does not pass through unchanged once the fences are out: its blanks at both ends go.
\<close>

theorem extraction_greedy_counterexample:
  "greedy_span two_ends_reply = Some (begin_marker @ '' A'' @ end_marker @ '' B'' @ end_marker)
   \<and> clean_text two_ends_reply = begin_marker @ '' A'' @ end_marker
   \<and> clean_text two_ends_reply
       \<noteq> py_strip (remove_fences (begin_marker @ '' A'' @ end_marker @ '' B'' @ end_marker))
   \<and> document_span '' plain text '' = None
   \<and> remove_fences '' plain text '' = '' plain text ''
   \<and> clean_text '' plain text '' = ''plain text''
   \<and> document_span ''```latex plain text ``` '' = None
   \<and> remove_fences ''```latex plain text ``` '' = '' plain text  ''
   \<and> clean_text ''```latex plain text ``` '' = ''plain text''"
  by code_simp

subsection \<open>A second extraction\<close>

text \<open>
  C8 (as the program has it). When the search finds a document in the reply, as it does
  in a reply that holds exactly one, wrapped in commentary and fences or not, extraction
  yields the begin marker, the text between the markers with its fence markers taken
  out, and the end marker. Extracting again from that result gives it back unchanged
  provided the first end marker in it is the closing one, that is, taking out the
  fences has not made an end marker of the text between; this is so whenever the
  document holds no fence marker.
\<close>

theorem extraction_idempotent_without_new_end:
  assumes "document_span raw = Some d"
  shows "\<exists>body. d = begin_marker @ body @ end_marker
           \<and> clean_text raw = begin_marker @ remove_fences body @ end_marker
           \<and> (find_sub end_marker (remove_fences body @ end_marker)
                  = Some (length (remove_fences body))
                \<longrightarrow> clean_text (clean_text raw) = clean_text raw)
           \<and> ((\<forall>j. \<not> prefix ''```'' (drop j body))
                \<longrightarrow> clean_text raw = d \<and> clean_text (clean_text raw) = clean_text raw)"
proof -
  from assms obtain body where d: "d = begin_marker @ body @ end_marker"
    and first: "find_sub end_marker (body @ end_marker) = Some (length body)"
    by (rule document_span_parts)
  have once: "clean_text raw = begin_marker @ remove_fences body @ end_marker"
    using assms unfolding d by (rule clean_text_document)
  have again: "clean_text (clean_text raw) = clean_text raw"
    if "find_sub end_marker (remove_fences body @ end_marker) = Some (length (remove_fences body))"
    unfolding once using that remove_fences_twice by (rule clean_text_fixed)
  have plain: "clean_text raw = d \<and> clean_text (clean_text raw) = clean_text raw"
    if "\<forall>j. \<not> prefix ''```'' (drop j body)"
  proof -
    from that have same: "remove_fences body = body"
      by (simp add: remove_fences_absent)
    with once d have "clean_text raw = d"
      by simp
    moreover have "clean_text (clean_text raw) = clean_text raw"
      using first same by (simp add: again)
    ultimately show ?thesis ..
  qed
  from d once again plain show ?thesis
    by blast
qed

theorem extraction_idempotent_without_new_end_witness:
  "document_span wrapped_reply = Some (begin_marker @ ''{article} Hello '' @ end_marker)
   \<and> occurrences begin_marker wrapped_reply = [29]
   \<and> occurrences end_marker wrapped_reply = [59]
   \<and> clean_text wrapped_reply = begin_marker @ ''{article} Hello '' @ end_marker
   \<and> clean_text (clean_text wrapped_reply) = clean_text wrapped_reply"
proof -
  let ?body = "''{article} Hello ''"
  have span: "document_span wrapped_reply = Some (begin_marker @ ?body @ end_marker)"
    by code_simp
  have nofence: "\<forall>j. \<not> prefix ''```'' (drop j ?body)"
  proof
    fix j
    have "set (drop j ?body) \<subseteq> set ?body"
      by (rule set_drop_subset)
    then have "CHR 0x60 \<notin> set (drop j ?body)"
      by auto
    then show "\<not> prefix ''```'' (drop j ?body)"
      by (auto simp: prefix_def)
  qed
  from extraction_idempotent_without_new_end [OF span] obtain body
    where b: "begin_marker @ ?body @ end_marker = begin_marker @ body @ end_marker"
      and c: "(\<forall>j. \<not> prefix ''```'' (drop j body))
                \<longrightarrow> clean_text wrapped_reply = begin_marker @ ?body @ end_marker
                  \<and> clean_text (clean_text wrapped_reply) = clean_text wrapped_reply"
    by blast
  from b have eq: "body = ?body"
    by simp
  from c have "(\<forall>j. \<not> prefix ''```'' (drop j ?body))
                \<longrightarrow> clean_text wrapped_reply = begin_marker @ ?body @ end_marker
                  \<and> clean_text (clean_text wrapped_reply) = clean_text wrapped_reply"
    unfolding eq .
  from this nofence
  have res: "clean_text wrapped_reply = begin_marker @ ?body @ end_marker
               \<and> clean_text (clean_text wrapped_reply) = clean_text wrapped_reply"
    by (rule mp)
  have o1: "occurrences begin_marker wrapped_reply = [29]"
    by code_simp
  have o2: "occurrences end_marker wrapped_reply = [59]"
    by code_simp
  from span o1 o2 res show ?thesis
    by (elim conjE) (intro conjI; assumption)
qed

text \<open>
  C8 as the specification words it fails: a reply with one begin marker and one end
  marker, in which a fence marker splits a would-be end marker inside the document.
  The first extraction joins the pieces; the second stops at the end marker so made.
\<close>

theorem extraction_idempotence_counterexample:
  "occurrences begin_marker split_end_reply = [0]
   \<and> occurrences end_marker split_end_reply = [31]
   \<and> clean_text split_end_reply = begin_marker @ end_marker @ end_marker
   \<and> clean_text (clean_text split_end_reply) = begin_marker @ end_marker
   \<and> clean_text (clean_text split_end_reply) \<noteq> clean_text split_end_reply"
  by code_simp

section \<open>Properties of the parser, the profiler and the tagger\<close>

subsection \<open>The brace block\<close>

lemma dropWhile_first:
  assumes "dropWhile (\<lambda>c. c \<noteq> x) s = c # rest"
  shows "c = x \<and> s = takeWhile (\<lambda>c. c \<noteq> x) s @ x # rest \<and> x \<notin> set (takeWhile (\<lambda>c. c \<noteq> x) s)"
proof -
  have "\<not> (hd (dropWhile (\<lambda>c. c \<noteq> x) s) \<noteq> x)"
    by (rule hd_dropWhile) (simp add: assms)
  then have c: "c = x" by (simp add: assms)
  have "s = takeWhile (\<lambda>c. c \<noteq> x) s @ dropWhile (\<lambda>c. c \<noteq> x) s" by simp
  then have s: "s = takeWhile (\<lambda>c. c \<noteq> x) s @ x # rest" by (simp add: assms c)
  have "x \<notin> set (takeWhile (\<lambda>c. c \<noteq> x) s)"
    by (auto dest: set_takeWhileD)
  with c s show ?thesis by simp
qed

lemma dropWhile_finds:
  "\<exists>r. dropWhile (\<lambda>c. c \<noteq> x) (pre @ x # t) = x # r \<and> set t \<subseteq> set r"
  by (induction pre) auto

lemma dropWhile_member:
  assumes "x \<in> set s"
  shows "dropWhile (\<lambda>c. c \<noteq> x) s \<noteq> []"
  using assms by (induction s) auto

lemma first_to_last_Some:
  assumes "dropWhile (\<lambda>c. c \<noteq> x) raw = c # rest"
    and "dropWhile (\<lambda>c. c \<noteq> y) (rev rest) = d # inner"
  shows "\<exists>pre mid post. raw = pre @ (c # rev (d # inner)) @ post
           \<and> c # rev (d # inner) = x # mid @ [y] \<and> x \<notin> set pre \<and> y \<notin> set post"
proof -
  define pre where "pre = takeWhile (\<lambda>c. c \<noteq> x) raw"
  define post where "post = takeWhile (\<lambda>c. c \<noteq> y) (rev rest)"
  from dropWhile_first [OF assms(1)]
  have c: "c = x" and raw: "raw = pre @ x # rest" and p: "x \<notin> set pre"
    unfolding pre_def by simp_all
  from dropWhile_first [OF assms(2)]
  have d: "d = y" and r: "rev rest = post @ y # inner" and t: "y \<notin> set post"
    unfolding post_def by simp_all
  have "rev (rev rest) = rev (post @ y # inner)" by (simp only: r)
  then have rest: "rest = rev inner @ [y] @ rev post" by simp
  have 1: "raw = pre @ (c # rev (d # inner)) @ rev post" by (simp add: raw rest c d)
  have 2: "c # rev (d # inner) = x # rev inner @ [y]" by (simp add: c d)
  have 3: "y \<notin> set (rev post)" using t by simp
  show ?thesis using 1 2 p 3 by blast
qed

lemma first_to_last_None:
  assumes "raw = pre @ x # mid @ y # post"
  shows "\<exists>rest d inner. dropWhile (\<lambda>c. c \<noteq> x) raw = x # rest
           \<and> dropWhile (\<lambda>c. c \<noteq> y) (rev rest) = d # inner"
proof -
  obtain r where r: "dropWhile (\<lambda>c. c \<noteq> x) raw = x # r" and s: "set (mid @ y # post) \<subseteq> set r"
    unfolding assms using dropWhile_finds [of x pre "mid @ y # post"] by blast
  have "y \<in> set (rev r)" using s by auto
  then have "dropWhile (\<lambda>c. c \<noteq> y) (rev r) \<noteq> []" by (rule dropWhile_member)
  then obtain d inner where "dropWhile (\<lambda>c. c \<noteq> y) (rev r) = d # inner"
    by (cases "dropWhile (\<lambda>c. c \<noteq> y) (rev r)") auto
  with r show ?thesis by blast
qed

lemma brace_block_Some:
  assumes "brace_block raw = Some block"
  shows "\<exists>pre inner post. raw = pre @ block @ post \<and> block = CHR ''{'' # inner @ [CHR ''}'']
           \<and> CHR ''{'' \<notin> set pre \<and> CHR ''}'' \<notin> set post"
proof (cases "dropWhile (\<lambda>c. c \<noteq> CHR ''{'') raw")
  case Nil
  show ?thesis using assms unfolding brace_block_def Nil by simp
next
  case (Cons c rest)
  note d1 = Cons
  show ?thesis
  proof (cases "dropWhile (\<lambda>c. c \<noteq> CHR ''}'') (rev rest)")
    case Nil
    show ?thesis using assms unfolding brace_block_def d1 list.case Nil by simp
  next
    case (Cons d inner)
    have "block = c # rev (d # inner)"
      using assms unfolding brace_block_def d1 list.case Cons by simp
    with first_to_last_Some [OF d1 Cons] show ?thesis by simp
  qed
qed

lemma brace_block_None:
  assumes "brace_block raw = None"
  shows "\<not> (\<exists>pre mid post. raw = pre @ CHR ''{'' # mid @ CHR ''}'' # post)"
proof
  assume "\<exists>pre mid post. raw = pre @ CHR ''{'' # mid @ CHR ''}'' # post"
  then obtain pre mid post where raw: "raw = pre @ CHR ''{'' # mid @ CHR ''}'' # post" by blast
  from first_to_last_None [OF raw]
  obtain rest d inner where "dropWhile (\<lambda>c. c \<noteq> CHR ''{'') raw = CHR ''{'' # rest"
    and "dropWhile (\<lambda>c. c \<noteq> CHR ''}'') (rev rest) = d # inner" by blast
  then have "brace_block raw \<noteq> None" unfolding brace_block_def by (simp only: list.case) simp
  with assms show False by simp
qed

subsection \<open>The parser\<close>

lemma parser_direct:
  assumes "loads raw = Inr v"
  shows "safe_json_loads loads raw lbl = Inr (v, [])"
  by (simp add: safe_json_loads_def assms)

lemma parser_block:
  assumes "loads raw = Inl JSONDecodeError" and "brace_block raw = Some block"
    and "loads block = Inr v"
  shows "safe_json_loads loads raw lbl = Inr (v, [])"
  by (simp add: safe_json_loads_def assms)

lemma parser_absent:
  assumes "undecodable loads raw"
  shows "safe_json_loads loads raw lbl = Inr (PyNone, [warning lbl])"
proof (cases "brace_block raw")
  case None
  then show ?thesis using assms by (simp add: safe_json_loads_def undecodable_def)
next
  case (Some block)
  then show ?thesis using assms by (simp add: safe_json_loads_def undecodable_def)
qed

text \<open>
  With a decoder that raises nothing but its decode error the parser always returns.
\<close>

lemma parser_returns:
  assumes "\<And>s e. loads s = Inl e \<Longrightarrow> e = JSONDecodeError"
  shows "\<exists>v out. safe_json_loads loads raw lbl = Inr (v, out)"
proof (cases "loads raw")
  case (Inr v)
  then show ?thesis by (simp add: parser_direct)
next
  case (Inl e)
  then have raw: "loads raw = Inl JSONDecodeError" using assms by simp
  show ?thesis
  proof (cases "brace_block raw")
    case None
    then show ?thesis using raw by (simp add: safe_json_loads_def)
  next
    case (Some block)
    show ?thesis
    proof (cases "loads block")
      case (Inr v)
      then show ?thesis using raw Some by (simp add: parser_block)
    next
      case (Inl e')
      then have "loads block = Inl JSONDecodeError" using assms by simp
      then show ?thesis using raw Some by (simp add: safe_json_loads_def)
    qed
  qed
qed

lemma example_direct: "json_loads parser_example = Inl JSONDecodeError"
  by code_simp

lemma example_block: \<open>brace_block parser_example = Some ''{"a": 1, "b": [2,3]}''\<close>
  by code_simp

lemma example_record:
  \<open>json_loads ''{"a": 1, "b": [2,3]}'' = Inr (PyDict [(''a'', PyInt 1), (''b'', PyList [PyInt 2, PyInt 3])])\<close>
  by code_simp

text \<open>
  C3 (as the program has it). The parser returns what the decoder makes of the whole
  text, whenever the decoder accepts it. When the decoder rejects the text with a decode
  error, the parser hands it the brace block: the part of the text from the first
  opening brace to the last closing brace, over line breaks too; there is none exactly
  when no closing brace follows an opening one. It returns what the decoder makes of
  the block, and if there is no block or the decoder rejects it with a decode error, it
  returns \<^verbatim>\<open>None\<close> and prints one line, which ends with the caller's label. On the text of
  the example it returns the record of the example.
\<close>

theorem parser_direct_then_brace_block:
  \<open>(loads raw = Inr v \<longrightarrow> safe_json_loads loads raw lbl = Inr (v, []))
   \<and> (loads raw = Inl JSONDecodeError \<and> brace_block raw = Some block \<and> loads block = Inr v
        \<longrightarrow> safe_json_loads loads raw lbl = Inr (v, []))
   \<and> (loads raw = Inl JSONDecodeError \<and> brace_block raw = Some block
        \<and> loads block = Inl JSONDecodeError
        \<longrightarrow> safe_json_loads loads raw lbl = Inr (PyNone, [''[WARN] Failed to parse JSON for '' @ lbl]))
   \<and> (loads raw = Inl JSONDecodeError \<and> brace_block raw = None
        \<longrightarrow> safe_json_loads loads raw lbl = Inr (PyNone, [''[WARN] Failed to parse JSON for '' @ lbl]))
   \<and> (brace_block raw = Some block
        \<longrightarrow> (\<exists>pre inner post. raw = pre @ block @ post \<and> block = CHR ''{'' # inner @ [CHR ''}'']
              \<and> CHR ''{'' \<notin> set pre \<and> CHR ''}'' \<notin> set post))
   \<and> (brace_block raw = None
        \<longrightarrow> \<not> (\<exists>pre inner post. raw = pre @ CHR ''{'' # inner @ CHR ''}'' # post))
   \<and> safe_json_loads json_loads parser_example lbl =
        Inr (PyDict [(''a'', PyInt 1), (''b'', PyList [PyInt 2, PyInt 3])], [])\<close>
proof (intro conjI impI)
  assume "loads raw = Inr v"
  then show "safe_json_loads loads raw lbl = Inr (v, [])" by (rule parser_direct)
next
  assume "loads raw = Inl JSONDecodeError \<and> brace_block raw = Some block \<and> loads block = Inr v"
  then show "safe_json_loads loads raw lbl = Inr (v, [])" by (simp add: parser_block)
next
  assume "loads raw = Inl JSONDecodeError \<and> brace_block raw = Some block
    \<and> loads block = Inl JSONDecodeError"
  then have "undecodable loads raw" by (simp add: undecodable_def)
  then show "safe_json_loads loads raw lbl = Inr (PyNone, [''[WARN] Failed to parse JSON for '' @ lbl])"
    by (simp add: parser_absent warning_def)
next
  assume "loads raw = Inl JSONDecodeError \<and> brace_block raw = None"
  then have "undecodable loads raw" by (simp add: undecodable_def)
  then show "safe_json_loads loads raw lbl = Inr (PyNone, [''[WARN] Failed to parse JSON for '' @ lbl])"
    by (simp add: parser_absent warning_def)
next
  assume "brace_block raw = Some block"
  then show "\<exists>pre inner post. raw = pre @ block @ post \<and> block = CHR ''{'' # inner @ [CHR ''}'']
              \<and> CHR ''{'' \<notin> set pre \<and> CHR ''}'' \<notin> set post"
    by (rule brace_block_Some)
next
  assume "brace_block raw = None"
  then show "\<not> (\<exists>pre inner post. raw = pre @ CHR ''{'' # inner @ CHR ''}'' # post)"
    by (rule brace_block_None)
next
  show \<open>safe_json_loads json_loads parser_example lbl =
        Inr (PyDict [(''a'', PyInt 1), (''b'', PyList [PyInt 2, PyInt 3])], [])\<close>
    using example_direct example_block example_record by (rule parser_block)
qed

lemma no_json_direct: "json_loads ''Sorry, no JSON today.'' = Inl JSONDecodeError"
  by code_simp

lemma no_json_block: "brace_block ''Sorry, no JSON today.'' = None"
  by code_simp

theorem parser_direct_then_brace_block_witness:
  \<open>safe_json_loads json_loads ''Sorry, no JSON today.'' ''JD signals'' =
     Inr (PyNone, [''[WARN] Failed to parse JSON for JD signals''])\<close>
proof -
  note fact = parser_direct_then_brace_block
    [of json_loads "''Sorry, no JSON today.''" PyNone "''JD signals''" "[]"]
  from fact have "json_loads ''Sorry, no JSON today.'' = Inl JSONDecodeError
      \<and> brace_block ''Sorry, no JSON today.'' = None
    \<longrightarrow> safe_json_loads json_loads ''Sorry, no JSON today.'' ''JD signals'' =
       Inr (PyNone, [''[WARN] Failed to parse JSON for '' @ ''JD signals''])"
    by (elim conjE)
  then have "safe_json_loads json_loads ''Sorry, no JSON today.'' ''JD signals'' =
       Inr (PyNone, [''[WARN] Failed to parse JSON for '' @ ''JD signals''])"
    using no_json_direct no_json_block by (elim mp) (rule conjI)
  then show ?thesis by simp
qed

text \<open>
  C3 as the specification words it fails on a text that has no brace and decodes as a
  whole: the parser returns the decoded value, here a list, and prints nothing.
\<close>

theorem parser_no_brace_counterexample:
  "brace_block ''[1, 2]'' = None
   \<and> safe_json_loads json_loads ''[1, 2]'' ''JD signals'' = Inr (PyList [PyInt 1, PyInt 2], [])"
  by code_simp

subsection \<open>A text that makes the parser raise\<close>

text \<open>
  The decoder reads a run of digits with \<^verbatim>\<open>int\<close>, which raises \<^verbatim>\<open>ValueError\<close> beyond 4300
  digits. \<^verbatim>\<open>ValueError\<close> is not a \<^verbatim>\<open>JSONDecodeError\<close>, so neither \<^verbatim>\<open>except\<close> clause of the
  parser catches it.
\<close>

lemma match_number_digits:
  assumes "\<forall>x\<in>set cs. is_digit x"
  shows "match_number (CHR ''1'' # cs) =
     Some (if int_max_str_digits < Suc (length cs) then Inl ValueError
           else Inr (PyInt (int_of_digits (CHR ''1'' # cs))), Suc (length cs))"
proof -
  have d: "is_digit (CHR ''1'')"
    by (simp add: is_digit_def)
  have t: "takeWhile is_digit cs = cs"
    using assms by (simp add: takeWhile_eq_all_conv)
  show ?thesis
    by (simp add: match_number_def Let_def d t)
qed

lemma tokens_digits:
  assumes "\<forall>x\<in>set cs. is_digit x" and "int_max_str_digits < Suc (length cs)"
  shows "tokens (CHR ''1'' # cs) = [Bad ValueError]"
  using assms(2) by (simp add: match_number_digits [OF assms(1)] json_space_def)

lemma json_loads_digits: "json_loads (replicate 4301 (CHR ''1'')) = Inl ValueError"
proof -
  have "tokens (CHR ''1'' # replicate 4300 (CHR ''1'')) = [Bad ValueError]"
    by (rule tokens_digits) (simp_all add: int_max_str_digits_def is_digit_def)
  moreover have "replicate 4301 (CHR ''1'') = CHR ''1'' # replicate 4300 (CHR ''1'')"
    by (simp add: replicate_Suc [symmetric] del: replicate_Suc replicate.simps)
  ultimately show ?thesis
    by (simp add: json_loads_def)
qed

text \<open>
  C4 fails in the program: on the text of 4301 digits \<^verbatim>\<open>1\<close> the parser raises
  \<^verbatim>\<open>ValueError\<close>, and the profiler and the tagger, which call it on the reply of the
  oracle, raise with it.
\<close>

theorem digit_limit_escapes_parser:
  "safe_json_loads json_loads (replicate 4301 (CHR ''1'')) ''JD signals'' = Inl ValueError
   \<and> extract_signal_weights json_loads (replicate 4301 (CHR ''1'')) = Inl ValueError
   \<and> tag_resume_bullets json_loads (replicate 4301 (CHR ''1'')) = Inl ValueError"
  by (simp add: safe_json_loads_def extract_signal_weights_def tag_resume_bullets_def
      json_loads_digits)

subsection \<open>The profiler\<close>

lemma map_of_setdefault:
  "map_of (setdefault k v kvs) k' =
     (if k' = k \<and> k \<notin> fst ` set kvs then Some v else map_of kvs k')"
proof (cases "k \<in> fst ` set kvs")
  case True
  then show ?thesis by (simp add: setdefault_def)
next
  case False
  then have "map_of kvs k = None" by (simp add: map_of_eq_None_iff)
  then show ?thesis using False by (auto simp: setdefault_def map_add_def split: option.splits)
qed

lemma map_of_setdefault_keeps:
  assumes "map_of kvs k = Some v"
  shows "map_of (setdefault k' v' kvs) k = Some v"
  using assms by (simp add: setdefault_def map_add_def)

lemma keys_setdefault: "fst ` set (setdefault k v kvs) = insert k (fst ` set kvs)"
  by (auto simp: setdefault_def)

lemma profiler_absent:
  assumes "undecodable loads reply"
  shows "extract_signal_weights loads reply =
    Inr (PyNone, [''\<newline>[1/4] Extracting and weighting JD signals...'',
                  ''[WARN] Failed to parse JSON for JD signals''])"
  by (simp add: extract_signal_weights_def parser_absent [OF assms] warning_def)

lemma profiler_record:
  assumes "safe_json_loads loads reply ''JD signals'' = Inr (PyDict kvs, out)" and "kvs \<noteq> []"
  shows "extract_signal_weights loads reply =
    Inr (PyDict (setdefault ''domain_phrases'' (PyList [])
                  (setdefault ''top_keywords'' (PyList [])
                    (setdefault ''top_5_signals'' (PyList [])
                      (setdefault ''signal_weights'' (PyDict []) kvs)))),
         ''\<newline>[1/4] Extracting and weighting JD signals...'' # out)"
  using assms(2) by (simp add: extract_signal_weights_def assms(1))

text \<open>
  C5 (as the program has it). When decoding fails, that is, the decoder rejects with a
  decode error the reply and its brace block, if it has one, the profiler returns
  \<^verbatim>\<open>None\<close>. When the parser returns a record that is not empty, the profiler returns a
  record with the four keys \<^verbatim>\<open>signal_weights\<close>, \<^verbatim>\<open>top_5_signals\<close>, \<^verbatim>\<open>top_keywords\<close> and
  \<^verbatim>\<open>domain_phrases\<close>: every entry of the decoded record is kept, and each of the four
  keys that the decoded record lacks has an empty container as its value, so a record
  without \<^verbatim>\<open>domain_phrases\<close> gets the empty list there.
\<close>

theorem profiler_defaults_missing_keys:
  \<open>(undecodable loads reply \<longrightarrow>
      extract_signal_weights loads reply =
        Inr (PyNone, [''\<newline>[1/4] Extracting and weighting JD signals...'',
                      ''[WARN] Failed to parse JSON for JD signals'']))
   \<and> (safe_json_loads loads reply ''JD signals'' = Inr (PyDict kvs, out) \<and> kvs \<noteq> [] \<longrightarrow>
        (\<exists>data. extract_signal_weights loads reply =
                  Inr (PyDict data, ''\<newline>[1/4] Extracting and weighting JD signals...'' # out)
           \<and> set profile_keys \<subseteq> fst ` set data
           \<and> (\<forall>k v. map_of kvs k = Some v \<longrightarrow> map_of data k = Some v)
           \<and> (\<forall>k \<in> set profile_keys. k \<notin> fst ` set kvs \<longrightarrow> map_of data k = Some (empty_container k))
           \<and> (''domain_phrases'' \<notin> fst ` set kvs \<longrightarrow> map_of data ''domain_phrases'' = Some (PyList []))))\<close>
proof (intro conjI impI)
  assume "undecodable loads reply"
  then show "extract_signal_weights loads reply =
        Inr (PyNone, [''\<newline>[1/4] Extracting and weighting JD signals...'',
                      ''[WARN] Failed to parse JSON for JD signals''])"
    by (rule profiler_absent)
next
  assume a: "safe_json_loads loads reply ''JD signals'' = Inr (PyDict kvs, out) \<and> kvs \<noteq> []"
  define d1 where "d1 = setdefault ''signal_weights'' (PyDict []) kvs"
  define d2 where "d2 = setdefault ''top_5_signals'' (PyList []) d1"
  define d3 where "d3 = setdefault ''top_keywords'' (PyList []) d2"
  define data where "data = setdefault ''domain_phrases'' (PyList []) d3"
  have k1: "fst ` set d1 = insert ''signal_weights'' (fst ` set kvs)"
    unfolding d1_def by (rule keys_setdefault)
  have k2: "fst ` set d2 = insert ''top_5_signals'' (fst ` set d1)"
    unfolding d2_def by (rule keys_setdefault)
  have k3: "fst ` set d3 = insert ''top_keywords'' (fst ` set d2)"
    unfolding d3_def by (rule keys_setdefault)
  have k4: "fst ` set data = insert ''domain_phrases'' (fst ` set d3)"
    unfolding data_def by (rule keys_setdefault)
  have m1: "map_of d1 k = (if k = ''signal_weights'' \<and> ''signal_weights'' \<notin> fst ` set kvs
      then Some (PyDict []) else map_of kvs k)" for k
    unfolding d1_def by (rule map_of_setdefault)
  have m2: "map_of d2 k = (if k = ''top_5_signals'' \<and> ''top_5_signals'' \<notin> fst ` set d1
      then Some (PyList []) else map_of d1 k)" for k
    unfolding d2_def by (rule map_of_setdefault)
  have m3: "map_of d3 k = (if k = ''top_keywords'' \<and> ''top_keywords'' \<notin> fst ` set d2
      then Some (PyList []) else map_of d2 k)" for k
    unfolding d3_def by (rule map_of_setdefault)
  have m4: "map_of data k = (if k = ''domain_phrases'' \<and> ''domain_phrases'' \<notin> fst ` set d3
      then Some (PyList []) else map_of d3 k)" for k
    unfolding data_def by (rule map_of_setdefault)
  have sub1: "fst ` set kvs \<subseteq> fst ` set d1" and sub2: "fst ` set d1 \<subseteq> fst ` set d2"
    and sub3: "fst ` set d2 \<subseteq> fst ` set d3" and sub4: "fst ` set d3 \<subseteq> fst ` set data"
    unfolding k1 k2 k3 k4 by (rule subset_insertI)+
  have keep: "map_of data k = Some v" if "map_of kvs k = Some v" for k v
    unfolding data_def d3_def d2_def d1_def using that by (intro map_of_setdefault_keeps)
  have e1: "map_of data ''signal_weights'' = Some (PyDict [])" if "''signal_weights'' \<notin> fst ` set kvs"
    using that unfolding m4 m3 m2 m1 by simp
  have e2: "map_of data ''top_5_signals'' = Some (PyList [])" if "''top_5_signals'' \<notin> fst ` set kvs"
    using that unfolding m4 m3 m2 m1 k1 by simp
  have e3: "map_of data ''top_keywords'' = Some (PyList [])" if "''top_keywords'' \<notin> fst ` set kvs"
    using that unfolding m4 m3 m2 m1 k1 k2 by simp
  have e4: "map_of data ''domain_phrases'' = Some (PyList [])" if "''domain_phrases'' \<notin> fst ` set kvs"
    using that unfolding m4 m3 m2 m1 k1 k2 k3 by simp
  have r: "extract_signal_weights loads reply =
      Inr (PyDict data, ''\<newline>[1/4] Extracting and weighting JD signals...'' # out)"
    unfolding data_def d3_def d2_def d1_def using a by (intro profiler_record) simp_all
  have keys: "set profile_keys \<subseteq> fst ` set data"
    unfolding profile_keys_def k4 k3 k2 k1 by simp
  have dflt: "\<forall>k \<in> set profile_keys. k \<notin> fst ` set kvs \<longrightarrow> map_of data k = Some (empty_container k)"
    unfolding profile_keys_def using e1 e2 e3 e4 by (simp add: empty_container_def)
  have kp: "\<forall>k v. map_of kvs k = Some v \<longrightarrow> map_of data k = Some v"
    using keep by blast
  have dp: "''domain_phrases'' \<notin> fst ` set kvs \<longrightarrow> map_of data ''domain_phrases'' = Some (PyList [])"
    using e4 by blast
  show "\<exists>data. extract_signal_weights loads reply =
                  Inr (PyDict data, ''\<newline>[1/4] Extracting and weighting JD signals...'' # out)
           \<and> set profile_keys \<subseteq> fst ` set data
           \<and> (\<forall>k v. map_of kvs k = Some v \<longrightarrow> map_of data k = Some v)
           \<and> (\<forall>k \<in> set profile_keys. k \<notin> fst ` set kvs \<longrightarrow> map_of data k = Some (empty_container k))
           \<and> (''domain_phrases'' \<notin> fst ` set kvs \<longrightarrow> map_of data ''domain_phrases'' = Some (PyList []))"
    using r keys kp dflt dp by (intro exI [of _ data] conjI)
qed

text \<open>A reply with three of the four keys.\<close>

lemma partial_profile_parsed:
  \<open>safe_json_loads json_loads ''{"signal_weights": {"backend": 9}, "top_5_signals": ["backend"], "top_keywords": ["go"]}'' ''JD signals'' =
     Inr (PyDict [(''signal_weights'', PyDict [(''backend'', PyInt 9)]),
                  (''top_5_signals'', PyList [PyStr ''backend'']),
                  (''top_keywords'', PyList [PyStr ''go''])], [])\<close>
  by code_simp

theorem profiler_defaults_missing_keys_witness:
  \<open>\<exists>data. extract_signal_weights json_loads
       ''{"signal_weights": {"backend": 9}, "top_5_signals": ["backend"], "top_keywords": ["go"]}'' =
         Inr (PyDict data, [''\<newline>[1/4] Extracting and weighting JD signals...''])
       \<and> map_of data ''signal_weights'' = Some (PyDict [(''backend'', PyInt 9)])
       \<and> map_of data ''domain_phrases'' = Some (PyList [])\<close>
proof -
  define reply where
    \<open>reply = ''{"signal_weights": {"backend": 9}, "top_5_signals": ["backend"], "top_keywords": ["go"]}''\<close>
  define kvs where "kvs = [(''signal_weights'', PyDict [(''backend'', PyInt 9)]),
                  (''top_5_signals'', PyList [PyStr ''backend'']),
                  (''top_keywords'', PyList [PyStr ''go''])]"
  have p: "safe_json_loads json_loads reply ''JD signals'' = Inr (PyDict kvs, []) \<and> kvs \<noteq> []"
    unfolding reply_def kvs_def using partial_profile_parsed by simp
  have "safe_json_loads json_loads reply ''JD signals'' = Inr (PyDict kvs, []) \<and> kvs \<noteq> [] \<longrightarrow>
        (\<exists>data. extract_signal_weights json_loads reply =
                  Inr (PyDict data, ''\<newline>[1/4] Extracting and weighting JD signals...'' # [])
           \<and> set profile_keys \<subseteq> fst ` set data
           \<and> (\<forall>k v. map_of kvs k = Some v \<longrightarrow> map_of data k = Some v)
           \<and> (\<forall>k \<in> set profile_keys. k \<notin> fst ` set kvs \<longrightarrow> map_of data k = Some (empty_container k))
           \<and> (''domain_phrases'' \<notin> fst ` set kvs \<longrightarrow> map_of data ''domain_phrases'' = Some (PyList [])))"
    using profiler_defaults_missing_keys [of json_loads reply kvs "[]"] by (rule conjunct2)
  then obtain data where r: "extract_signal_weights json_loads reply =
                  Inr (PyDict data, [''\<newline>[1/4] Extracting and weighting JD signals...''])"
    and keep: "\<forall>k v. map_of kvs k = Some v \<longrightarrow> map_of data k = Some v"
    and dp: "''domain_phrases'' \<notin> fst ` set kvs \<longrightarrow> map_of data ''domain_phrases'' = Some (PyList [])"
    using p by blast
  have "map_of kvs ''signal_weights'' = Some (PyDict [(''backend'', PyInt 9)])"
    by (simp add: kvs_def)
  with keep have 1: "map_of data ''signal_weights'' = Some (PyDict [(''backend'', PyInt 9)])"
    by blast
  have "''domain_phrases'' \<notin> fst ` set kvs" by (simp add: kvs_def)
  with dp have 2: "map_of data ''domain_phrases'' = Some (PyList [])" by (rule mp)
  show ?thesis using r 1 2 unfolding reply_def by (intro exI [of _ data] conjI)
qed

text \<open>
  C5 as the specification words it fails on the reply \<^verbatim>\<open>{}\<close>: it decodes to the empty
  record, which is false in Python, and the profiler returns \<^verbatim>\<open>None\<close>, not a record with
  the four keys.
\<close>

theorem profiler_empty_record_counterexample:
  \<open>safe_json_loads json_loads ''{}'' ''JD signals'' = Inr (PyDict [], [])
   \<and> extract_signal_weights json_loads ''{}'' =
       Inr (PyNone, [''\<newline>[1/4] Extracting and weighting JD signals...''])\<close>
  by code_simp

subsection \<open>The tagger and the way to the scorer\<close>

lemma scorer_without_bullets: "scored_bullets (PyDict jd_signals) [] = Inr []"
  by (simp add: scored_bullets_def signal_weights_def py_get_def sort_reverse_def
      split: option.splits)

lemma tagger_absent:
  assumes "undecodable loads reply"
  shows "tag_resume_bullets loads reply =
    Inr ([], [''[2/4] Semantically tagging resume bullets...'',
              ''[WARN] Failed to parse JSON for bullet tagging''])"
  by (simp add: tag_resume_bullets_def parser_absent [OF assms] warning_def)

lemma tagger_payload:
  assumes "safe_json_loads loads reply ''bullet tagging'' = Inr (PyDict d, out)"
    and "map_of d ''tagged_bullets'' = Some p" and "\<not> is_list p"
  shows "tag_resume_bullets loads reply =
    Inr ([], ''[2/4] Semantically tagging resume bullets...'' # out)"
proof -
  have "d \<noteq> []" using assms(2) by auto
  moreover have "py_get (PyDict d) (PyStr ''tagged_bullets'') (PyList []) = Inr p"
    by (simp add: py_get_def assms(2))
  ultimately show ?thesis using assms(3)
    by (cases p) (simp_all add: tag_resume_bullets_def assms(1) is_list_def)
qed

lemma main_without_bullets:
  assumes "tag_resume_bullets loads reply = Inr ([], out)"
  shows "main_tag_and_score loads (PyDict jd_signals) reply =
     Inr ([], out @ [''[WARN] No tagged bullets returned. Tailoring will be more generic.'',
                     ''\<newline>Pausing for 10 seconds for API Rate Limits...'',
                     ''[3/4] Computing dynamic alignment scores and executing LaTeX adjustments...''])"
  by (simp add: main_tag_and_score_def assms scorer_without_bullets)

text \<open>
  When the decoder rejects with a decode error the reply and its brace block, if it has
  one, and when the parser returns a record whose \<^verbatim>\<open>tagged_bullets\<close> entry is no list, the
  tagger returns the empty list, and \<^verbatim>\<open>main\<close> goes on to the scorer, which returns the empty
  list of scored bullets for any profile that is a record.
\<close>

lemma tagger_returns_no_units:
  \<open>(undecodable loads reply \<longrightarrow>
      tag_resume_bullets loads reply =
        Inr ([], [''[2/4] Semantically tagging resume bullets...'',
                  ''[WARN] Failed to parse JSON for bullet tagging''])
      \<and> main_tag_and_score loads (PyDict jd_signals) reply =
        Inr ([], [''[2/4] Semantically tagging resume bullets...'',
                  ''[WARN] Failed to parse JSON for bullet tagging'',
                  ''[WARN] No tagged bullets returned. Tailoring will be more generic.'',
                  ''\<newline>Pausing for 10 seconds for API Rate Limits...'',
                  ''[3/4] Computing dynamic alignment scores and executing LaTeX adjustments...'']))
   \<and> (safe_json_loads loads reply ''bullet tagging'' = Inr (PyDict d, out)
        \<and> map_of d ''tagged_bullets'' = Some p \<and> \<not> is_list p \<longrightarrow>
      tag_resume_bullets loads reply =
        Inr ([], ''[2/4] Semantically tagging resume bullets...'' # out)
      \<and> main_tag_and_score loads (PyDict jd_signals) reply =
        Inr ([], ''[2/4] Semantically tagging resume bullets...'' # out
                 @ [''[WARN] No tagged bullets returned. Tailoring will be more generic.'',
                    ''\<newline>Pausing for 10 seconds for API Rate Limits...'',
                    ''[3/4] Computing dynamic alignment scores and executing LaTeX adjustments...'']))\<close>
proof (intro conjI impI)
  assume a: "undecodable loads reply"
  show t: "tag_resume_bullets loads reply =
        Inr ([], [''[2/4] Semantically tagging resume bullets...'',
                  ''[WARN] Failed to parse JSON for bullet tagging''])"
    using a by (rule tagger_absent)
  show "main_tag_and_score loads (PyDict jd_signals) reply =
        Inr ([], [''[2/4] Semantically tagging resume bullets...'',
                  ''[WARN] Failed to parse JSON for bullet tagging'',
                  ''[WARN] No tagged bullets returned. Tailoring will be more generic.'',
                  ''\<newline>Pausing for 10 seconds for API Rate Limits...'',
                  ''[3/4] Computing dynamic alignment scores and executing LaTeX adjustments...''])"
    using main_without_bullets [OF t] by simp
next
  assume a: "safe_json_loads loads reply ''bullet tagging'' = Inr (PyDict d, out)
        \<and> map_of d ''tagged_bullets'' = Some p \<and> \<not> is_list p"
  show t: "tag_resume_bullets loads reply =
        Inr ([], ''[2/4] Semantically tagging resume bullets...'' # out)"
    using a by (intro tagger_payload [of loads reply d out p]) simp_all
  show "main_tag_and_score loads (PyDict jd_signals) reply =
        Inr ([], ''[2/4] Semantically tagging resume bullets...'' # out
                 @ [''[WARN] No tagged bullets returned. Tailoring will be more generic.'',
                    ''\<newline>Pausing for 10 seconds for API Rate Limits...'',
                    ''[3/4] Computing dynamic alignment scores and executing LaTeX adjustments...''])"
    using main_without_bullets [OF t] by simp
qed

lemma refusal_undecodable: "undecodable json_loads ''I cannot tag this resume.''"
  by code_simp

lemma tagger_refusal_run:
  \<open>tag_resume_bullets json_loads ''I cannot tag this resume.'' =
        Inr ([], [''[2/4] Semantically tagging resume bullets...'',
                  ''[WARN] Failed to parse JSON for bullet tagging''])
   \<and> main_tag_and_score json_loads (PyDict [(''signal_weights'', PyDict [(''backend'', PyInt 9)])])
        ''I cannot tag this resume.'' =
        Inr ([], [''[2/4] Semantically tagging resume bullets...'',
                  ''[WARN] Failed to parse JSON for bullet tagging'',
                  ''[WARN] No tagged bullets returned. Tailoring will be more generic.'',
                  ''\<newline>Pausing for 10 seconds for API Rate Limits...'',
                  ''[3/4] Computing dynamic alignment scores and executing LaTeX adjustments...''])\<close>
  using tagger_returns_no_units
    [of json_loads "''I cannot tag this resume.''" "[(''signal_weights'', PyDict [(''backend'', PyInt 9)])]",
     THEN conjunct1, THEN mp, OF refusal_undecodable] .

text \<open>
  A value that is true in Python and no record has no \<^verbatim>\<open>get\<close>; an exception of the decoder
  that is no decode error passes through the parser and the tagger.
\<close>

lemma tagger_raises_without_get:
  assumes "safe_json_loads loads reply ''bullet tagging'' = Inr (data, out)"
    and "truthy data" and "\<And>kvs. data \<noteq> PyDict kvs"
  shows "tag_resume_bullets loads reply = Inl AttributeError"
    and "main_tag_and_score loads jd_signals reply = Inl AttributeError"
proof -
  have "py_get data (PyStr ''tagged_bullets'') (PyList []) = Inl AttributeError"
    using assms(3) by (cases data) (auto simp: py_get_def)
  then show t: "tag_resume_bullets loads reply = Inl AttributeError"
    using assms(2) by (simp add: tag_resume_bullets_def assms(1))
  show "main_tag_and_score loads jd_signals reply = Inl AttributeError"
    by (simp add: main_tag_and_score_def t)
qed

lemma tagger_raises_with_decoder:
  assumes "loads reply = Inl e" and "e \<noteq> JSONDecodeError"
  shows "tag_resume_bullets loads reply = Inl e"
    and "main_tag_and_score loads jd_signals reply = Inl e"
proof -
  have "safe_json_loads loads reply lbl = Inl e" for lbl
    using assms by (cases e) (simp_all add: safe_json_loads_def)
  then show t: "tag_resume_bullets loads reply = Inl e"
    by (simp add: tag_resume_bullets_def)
  show "main_tag_and_score loads jd_signals reply = Inl e"
    by (simp add: main_tag_and_score_def t)
qed

lemma bare_replies_decoded:
  \<open>json_loads ''5'' = Inr (PyInt 5)\<close>
  \<open>json_loads ''true'' = Inr (PyBool True)\<close>
  \<open>json_loads ''"abc"'' = Inr (PyStr ''abc'')\<close>
  \<open>json_loads ''["x"]'' = Inr (PyList [PyStr ''x''])\<close>
  by code_simp+

text \<open>
  C6 fails in the program. The tagger looks at the \<^verbatim>\<open>tagged_bullets\<close> entry with \<^verbatim>\<open>data.get\<close>,
  which only a record has: on a reply that decodes to a number other than 0, to \<^verbatim>\<open>true\<close>,
  to a string or a list that is not empty, it raises \<^verbatim>\<open>AttributeError\<close>, and \<^verbatim>\<open>main\<close> with
  it, before the scorer is called. On the reply of 4301 digits \<^verbatim>\<open>1\<close>, which the decoder
  does not decode, it raises the \<^verbatim>\<open>ValueError\<close> of the decoder.
\<close>

theorem tagger_raises_on_decoded_non_record:
  \<open>tag_resume_bullets json_loads ''5'' = Inl AttributeError
   \<and> tag_resume_bullets json_loads ''true'' = Inl AttributeError
   \<and> tag_resume_bullets json_loads ''"abc"'' = Inl AttributeError
   \<and> tag_resume_bullets json_loads ''["x"]'' = Inl AttributeError
   \<and> main_tag_and_score json_loads (PyDict [(''signal_weights'', PyDict [(''backend'', PyInt 9)])])
        ''["x"]'' = Inl AttributeError
   \<and> tag_resume_bullets json_loads (replicate 4301 (CHR ''1'')) = Inl ValueError
   \<and> main_tag_and_score json_loads (PyDict [(''signal_weights'', PyDict [(''backend'', PyInt 9)])])
        (replicate 4301 (CHR ''1'')) = Inl ValueError\<close>
proof -
  have p: "safe_json_loads json_loads r ''bullet tagging'' = Inr (v, [])"
    if "json_loads r = Inr v" for r v
    using that by (rule parser_direct)
  note a = tagger_raises_without_get [OF p [OF bare_replies_decoded(1)]]
  note b = tagger_raises_without_get [OF p [OF bare_replies_decoded(2)]]
  note c = tagger_raises_without_get [OF p [OF bare_replies_decoded(3)]]
  note d = tagger_raises_without_get [OF p [OF bare_replies_decoded(4)]]
  note e = tagger_raises_with_decoder
    [of json_loads "replicate 4301 (CHR ''1'')" ValueError, OF json_loads_digits]
  have 1: \<open>tag_resume_bullets json_loads ''5'' = Inl AttributeError\<close> by (rule a) simp_all
  have 2: \<open>tag_resume_bullets json_loads ''true'' = Inl AttributeError\<close> by (rule b) simp_all
  have 3: \<open>tag_resume_bullets json_loads ''"abc"'' = Inl AttributeError\<close> by (rule c) simp_all
  have 4: \<open>tag_resume_bullets json_loads ''["x"]'' = Inl AttributeError\<close> by (rule d) simp_all
  have 5: \<open>main_tag_and_score json_loads (PyDict [(''signal_weights'', PyDict [(''backend'', PyInt 9)])])
        ''["x"]'' = Inl AttributeError\<close> by (rule d) simp_all
  have 6: "tag_resume_bullets json_loads (replicate 4301 (CHR ''1'')) = Inl ValueError"
    by (rule e) simp
  have 7: "main_tag_and_score json_loads (PyDict [(''signal_weights'', PyDict [(''backend'', PyInt 9)])])
        (replicate 4301 (CHR ''1'')) = Inl ValueError"
    by (rule e) simp
  from 1 2 3 4 5 6 7 show ?thesis by (intro conjI)
qed

end
